theory Spec2Isabelle
  imports Complex_Main "HOL-Library.Product_Lexorder"
begin

section \<open>Python and numpy primitives used by \<open>Modules/st.py\<close>\<close>

text \<open>
  Exceptions are values. Only the built-in exceptions the module can raise are listed.
  In Python's hierarchy \<open>LookupError\<close> is the base class of \<open>IndexError\<close> and
  \<open>KeyError\<close>; \<open>ValueError\<close>, \<open>ZeroDivisionError\<close> and \<open>OverflowError\<close> are not
  subclasses of it.
\<close>

datatype py_error = IndexError | ValueError | ZeroDivisionError | OverflowError

fun is_LookupError :: "py_error \<Rightarrow> bool" where
  "is_LookupError IndexError = True"
| "is_LookupError ValueError = False"
| "is_LookupError ZeroDivisionError = False"
| "is_LookupError OverflowError = False"

text \<open>
  Indexing a sequence of length \<open>n\<close> with a Python integer: a negative index counts
  from the end, anything outside \<open>-n .. n-1\<close> raises \<open>IndexError\<close>.
\<close>

definition norm_index :: "nat \<Rightarrow> int \<Rightarrow> py_error + nat" where
  "norm_index n i =
     (let k = (if i < 0 then i + int n else i)
      in if 0 \<le> k \<and> k < int n then Inr (nat k) else Inl IndexError)"

definition py_getitem :: "'a list \<Rightarrow> int \<Rightarrow> py_error + 'a" where
  "py_getitem xs i =
     (case norm_index (length xs) i of Inl e \<Rightarrow> Inl e | Inr k \<Rightarrow> Inr (xs ! k))"

text \<open>\<open>list.index(x)\<close>: the first position of \<open>x\<close>, \<open>ValueError\<close> when absent.\<close>

fun list_index :: "'a list \<Rightarrow> 'a \<Rightarrow> py_error + nat" where
  "list_index [] x = Inl ValueError"
| "list_index (y # ys) x =
     (if y = x then Inr 0
      else (case list_index ys x of Inl e \<Rightarrow> Inl e | Inr k \<Rightarrow> Inr (Suc k)))"

text \<open>Indexing a one-dimensional numpy array with a non-negative integer.\<close>

definition np_getitem :: "'a list \<Rightarrow> nat \<Rightarrow> py_error + 'a" where
  "np_getitem xs k = (if k < length xs then Inr (xs ! k) else Inl IndexError)"

text \<open>
  The \<open>values\<close> array. Both constructors allocate it with shape
  \<open>(num_direct_edges, T + 2, T + 2)\<close>, and every later assignment keeps the shape, so
  an array is the side \<open>n_dim\<close> of its square matrices (\<open>shape[1]\<close> and \<open>shape[2]\<close>)
  and the list of its matrices, whose length is \<open>shape[0]\<close>.
  Entries are float64 in the source and real numbers here.
\<close>

type_synonym matrix = "real list list"

record ndarray =
  n_dim :: nat
  elems :: "matrix list"

definition n_slots :: "ndarray \<Rightarrow> nat" where
  "n_slots a = length (elems a)"

definition np_full :: "nat \<Rightarrow> nat \<Rightarrow> real \<Rightarrow> ndarray" where
  "np_full e n v = \<lparr>n_dim = n, elems = replicate e (replicate n (replicate n v))\<rparr>"

text \<open>\<open>a[:] = v\<close>: every entry is overwritten, the shape stays.\<close>

definition fill :: "ndarray \<Rightarrow> real \<Rightarrow> ndarray" where
  "fill a v = np_full (n_slots a) (n_dim a) v"

text \<open>\<open>m[:, col] = v\<close> on one matrix, the column already normalised.\<close>

definition set_col :: "matrix \<Rightarrow> nat \<Rightarrow> real \<Rightarrow> matrix" where
  "set_col m col v = map (\<lambda>row. row[col := v]) m"

text \<open>
  \<open>a, b = np.tril_indices(n, k); values[:, a, b] = 0\<close>: the index pairs are the
  \<open>(a, b)\<close> with \<open>a < n\<close>, \<open>b < n\<close> and \<open>b \<le> a + k\<close>. For \<open>n > 0\<close> the pair
  \<open>(n - 1, n - 1)\<close> is among them, so an array whose matrices are smaller than \<open>n\<close>
  raises \<open>IndexError\<close>.
\<close>

definition tril_zero_matrix :: "nat \<Rightarrow> nat \<Rightarrow> matrix \<Rightarrow> matrix" where
  "tril_zero_matrix n k m =
     map (\<lambda>a. map (\<lambda>b. if a < n \<and> b < n \<and> b \<le> a + k then 0 else m ! a ! b)
               [0..<length (m ! a)])
         [0..<length m]"

definition tril_zero :: "nat \<Rightarrow> nat \<Rightarrow> ndarray \<Rightarrow> py_error + ndarray" where
  "tril_zero n k a =
     (if 0 < n \<and> n_dim a < n then Inl IndexError
      else Inr (a\<lparr>elems := map (tril_zero_matrix n k) (elems a)\<rparr>))"

text \<open>\<open>1 - values\<close>.\<close>

definition one_minus :: "ndarray \<Rightarrow> ndarray" where
  "one_minus a = a\<lparr>elems := map (map (map (\<lambda>x. 1 - x))) (elems a)\<rparr>"

text \<open>\<open>np.cumprod(values, axis=2)\<close>: the running product along each row, left to right.\<close>

fun cumprod_acc :: "real \<Rightarrow> real list \<Rightarrow> real list" where
  "cumprod_acc p [] = []"
| "cumprod_acc p (x # xs) = (p * x) # cumprod_acc (p * x) xs"

fun cumprod_row :: "real list \<Rightarrow> real list" where
  "cumprod_row [] = []"
| "cumprod_row (x # xs) = x # cumprod_acc x xs"

definition cumprod :: "ndarray \<Rightarrow> ndarray" where
  "cumprod a = a\<lparr>elems := map (map cumprod_row) (elems a)\<rparr>"

text \<open>
  \<open>np.unique(rows, axis=0)\<close>: the distinct rows in lexicographic order (the order of
  pairs from \<open>Product_Lexorder\<close>).
\<close>

definition np_unique :: "(int \<times> int) list \<Rightarrow> (int \<times> int) list" where
  "np_unique rows = remdups_adj (sort rows)"

text \<open>\<open>np.flip(edge_list, 1)\<close> on two columns swaps them.\<close>

definition np_flip :: "(int \<times> int) list \<Rightarrow> (int \<times> int) list" where
  "np_flip rows = map (\<lambda>(a, b). (b, a)) rows"

text \<open>
  \<open>np.asarray(contacts, dtype="int")\<close> converts every entry of every contact, the
  rate included, to a 64-bit integer: a number goes through Python's \<open>int\<close> (a float
  is truncated towards zero), and an integer outside the 64-bit range raises
  \<open>OverflowError\<close>.
\<close>

definition fits_int64 :: "int \<Rightarrow> bool" where
  "fits_int64 x = (- (2 ^ 63) \<le> x \<and> x < 2 ^ 63)"

definition py_int :: "real \<Rightarrow> int" where
  "py_int x = (if 0 \<le> x then \<lfloor>x\<rfloor> else \<lceil>x\<rceil>)"

text \<open>
  \<open>np.full(shape, v)\<close> for the shape \<open>(e, n, n)\<close> raises \<open>ValueError\<close> when a dimension
  is negative, when a dimension does not fit a signed 64-bit index, and when the byte
  size of the array (8 bytes per entry, dimensions of length zero left out of the
  product) does not fit one. Running out of memory, for this array as for the list of
  \<open>N\<close> adjacency lists, depends on the machine and is outside the model.
\<close>

definition shape_ok :: "nat \<Rightarrow> int \<Rightarrow> bool" where
  "shape_ok e n =
     (0 \<le> n \<and> n < 2 ^ 63 \<and> int e < 2 ^ 63
      \<and> 8 * (if e = 0 then 1 else int e) * (if n = 0 then 1 else n) * (if n = 0 then 1 else n)
            < 2 ^ 63)"

section \<open>The sparse tensor\<close>

text \<open>A contact is \<open>(i, j, t, lambda_ij(t))\<close>.\<close>

type_synonym contact = "int \<times> int \<times> int \<times> real"

definition edge_of :: "contact \<Rightarrow> int \<times> int" where
  "edge_of cc = (case cc of (i, j, t, lam) \<Rightarrow> (i, j))"

record SparseTensor =
  nodes_N :: int
  time_T :: int
  adj_list :: "int list list"
  idx_list :: "nat list list"
  num_direct_edges :: nat
  degree :: "nat list"
  tensor_values :: ndarray

text \<open>
  The edge list of \<open>init\<close> (lines 38 to 46): the distinct pairs of the contacts, joined
  with their flips, made distinct and sorted again.
\<close>

definition contacts_fit :: "contact list \<Rightarrow> bool" where
  "contacts_fit contacts =
     list_all (\<lambda>(i, j, t, lam). fits_int64 i \<and> fits_int64 j \<and> fits_int64 t
                  \<and> fits_int64 (py_int lam)) contacts"

definition edge_list_of :: "contact list \<Rightarrow> py_error + (int \<times> int) list" where
  "edge_list_of contacts =
     (if contacts = [] then Inr []
      else if contacts_fit contacts
      then (let edge_list = np_unique (map edge_of contacts)
            in Inr (np_unique (edge_list @ np_flip edge_list)))
      else Inl OverflowError)"

text \<open>\<open>for e in edge_list: self.adj_list[e[0]].append(e[1])\<close>.\<close>

fun populate :: "int list list \<Rightarrow> (int \<times> int) list \<Rightarrow> py_error + int list list" where
  "populate adj [] = Inr adj"
| "populate adj (e # es) =
     (case norm_index (length adj) (fst e) of
        Inl err \<Rightarrow> Inl err
      | Inr k \<Rightarrow> populate (adj[k := adj ! k @ [snd e]]) es)"

text \<open>The loop that fills \<open>idx_list\<close> (lines 55 to 58), \<open>c\<close> the running offset.\<close>

fun build_idx :: "nat \<Rightarrow> nat list \<Rightarrow> nat list list" where
  "build_idx c [] = []"
| "build_idx c (d # ds) = [c..<c + d] # build_idx (c + d) ds"

text \<open>
  \<open>SparseTensor.init\<close>. The value \<open>1 / ((T + 2) * (T + 2))\<close> is computed on Python
  integers before \<open>np.full\<close> is called (division by zero raises); then \<open>np.full\<close>
  checks the shape.
\<close>

definition init :: "int \<Rightarrow> int \<Rightarrow> contact list \<Rightarrow> py_error + SparseTensor" where
  "init N T contacts =
     (case edge_list_of contacts of
        Inl err \<Rightarrow> Inl err
      | Inr edge_list \<Rightarrow>
          (case populate (replicate (nat N) []) edge_list of
             Inl err \<Rightarrow> Inl err
           | Inr adj \<Rightarrow>
               (let deg = map length adj in
                if (T + 2) * (T + 2) = 0 then Inl ZeroDivisionError
                else if shape_ok (length edge_list) (T + 2)
                then Inr \<lparr>nodes_N = N, time_T = T, adj_list = adj,
                          idx_list = build_idx 0 deg,
                          num_direct_edges = length edge_list,
                          degree = deg,
                          tensor_values = np_full (length edge_list) (nat (T + 2))
                                     (1 / real_of_int ((T + 2) * (T + 2)))\<rparr>
                else Inl ValueError)))"

text \<open>\<open>SparseTensor.init_like\<close>: the topology of the given tensor, all values one.\<close>

definition init_like :: "SparseTensor \<Rightarrow> py_error + SparseTensor" where
  "init_like Tensor =
     (if shape_ok (num_direct_edges Tensor) (time_T Tensor + 2)
      then Inr \<lparr>nodes_N = nodes_N Tensor, time_T = time_T Tensor,
                adj_list = adj_list Tensor, idx_list = idx_list Tensor,
                num_direct_edges = num_direct_edges Tensor,
                degree = degree Tensor,
                tensor_values = np_full (num_direct_edges Tensor) (nat (time_T Tensor + 2)) 1\<rparr>
      else Inl ValueError)"

text \<open>\<open>SparseTensor.__init__\<close>.\<close>

definition SparseTensor_new ::
  "int \<Rightarrow> int \<Rightarrow> contact list \<Rightarrow> SparseTensor option \<Rightarrow> py_error + SparseTensor" where
  "SparseTensor_new N T contacts Tensor_to_copy =
     (case Tensor_to_copy of None \<Rightarrow> init N T contacts | Some t \<Rightarrow> init_like t)"

text \<open>\<open>get_idx_ij\<close>: the slot of edge \<open>i \<rightarrow> j\<close>.\<close>

definition get_idx_ij :: "SparseTensor \<Rightarrow> int \<Rightarrow> int \<Rightarrow> py_error + nat" where
  "get_idx_ij t i j =
     (case py_getitem (adj_list t) j of
        Inl err \<Rightarrow> Inl err
      | Inr senders \<Rightarrow>
          (case list_index senders i of
             Inl err \<Rightarrow> Inl err
           | Inr idx_i \<Rightarrow>
               (case py_getitem (idx_list t) j of
                  Inl err \<Rightarrow> Inl err
                | Inr rng \<Rightarrow> np_getitem rng idx_i)))"

text \<open>
  \<open>get_ij\<close> returns \<open>self.values[idx]\<close>, a view of slot \<open>idx\<close> of the tensor's own
  array. The view is identified by its slot: reading it is \<open>elems (tensor_values t) ! idx\<close>,
  and an assignment through it updates that slot of \<open>tensor_values t\<close>.
\<close>

definition get_ij :: "SparseTensor \<Rightarrow> int \<Rightarrow> int \<Rightarrow> py_error + nat" where
  "get_ij t i j =
     (case get_idx_ij t i j of
        Inl err \<Rightarrow> Inl err
      | Inr idx \<Rightarrow> if idx < n_slots (tensor_values t) then Inr idx else Inl IndexError)"

definition read_slot :: "SparseTensor \<Rightarrow> nat \<Rightarrow> matrix" where
  "read_slot t idx = elems (tensor_values t) ! idx"

definition lookup_matrix :: "SparseTensor \<Rightarrow> int \<Rightarrow> int \<Rightarrow> py_error + matrix" where
  "lookup_matrix t i j =
     (case get_ij t i j of Inl err \<Rightarrow> Inl err | Inr idx \<Rightarrow> Inr (read_slot t idx))"

text \<open>
  \<open>get_neigh_i\<close> returns \<open>self.values[self.idx_list[i]]\<close>. The index is an integer
  array, so numpy builds a new array holding copies of the selected matrices.
\<close>

definition get_neigh_i :: "SparseTensor \<Rightarrow> int \<Rightarrow> py_error + ndarray" where
  "get_neigh_i t i =
     (case py_getitem (idx_list t) i of
        Inl err \<Rightarrow> Inl err
      | Inr rng \<Rightarrow>
          if list_all (\<lambda>k. k < n_slots (tensor_values t)) rng
          then Inr \<lparr>n_dim = n_dim (tensor_values t),
                    elems = map (\<lambda>k. elems (tensor_values t) ! k) rng\<rparr>
          else Inl IndexError)"

section \<open>The Lambda builders\<close>

text \<open>
  The builders rewrite the \<open>values\<close> of two tensors in place; here they take both
  tensors and return both, updated. \<open>Lambda0\<close> and \<open>Lambda1\<close> are two objects with
  arrays of their own, as \<open>init\<close> and \<open>init_like\<close> create them.
\<close>

text \<open>\<open>L.get_ij(i, j)[:, c] = v\<close>: the assignment through the view of the edge's slot.\<close>

definition assign_col ::
  "SparseTensor \<Rightarrow> int \<Rightarrow> int \<Rightarrow> int \<Rightarrow> real \<Rightarrow> py_error + SparseTensor" where
  "assign_col L i j c v =
     (case get_ij L i j of
        Inl err \<Rightarrow> Inl err
      | Inr idx \<Rightarrow>
          (case norm_index (n_dim (tensor_values L)) c of
             Inl err \<Rightarrow> Inl err
           | Inr col \<Rightarrow>
               Inr (L\<lparr>tensor_values := (tensor_values L)
                      \<lparr>elems := (elems (tensor_values L))
                         [idx := set_col (elems (tensor_values L) ! idx) col v]\<rparr>\<rparr>)))"

text \<open>The loop over the contacts (lines 153 to 157 and 189 to 192).\<close>

fun write_contacts ::
  "SparseTensor \<Rightarrow> SparseTensor \<Rightarrow> contact list \<Rightarrow> py_error + (SparseTensor \<times> SparseTensor)" where
  "write_contacts Lambda0 Lambda1 [] = Inr (Lambda0, Lambda1)"
| "write_contacts Lambda0 Lambda1 ((i, j, t, lam) # ccs) =
     (case assign_col Lambda1 i j (t + 2) lam of
        Inl err \<Rightarrow> Inl err
      | Inr L1 \<Rightarrow>
          (case assign_col Lambda0 i j (t + 1) lam of
             Inl err \<Rightarrow> Inl err
           | Inr L0 \<Rightarrow> write_contacts L0 L1 ccs))"

definition compute_Lambdas ::
  "SparseTensor \<Rightarrow> SparseTensor \<Rightarrow> contact list \<Rightarrow> py_error + (SparseTensor \<times> SparseTensor)" where
  "compute_Lambdas Lambda0 Lambda1 contacts =
     (let L1z = Lambda1\<lparr>tensor_values := fill (tensor_values Lambda1) 0\<rparr>;
          L0z = Lambda0\<lparr>tensor_values := fill (tensor_values Lambda0) 0\<rparr>
      in case write_contacts L0z L1z contacts of
           Inl err \<Rightarrow> Inl err
         | Inr (L0, L1) \<Rightarrow>
             (let n = n_dim (tensor_values L1)
              in case tril_zero n 1 (tensor_values L1) of
                   Inl err \<Rightarrow> Inl err
                 | Inr v1 \<Rightarrow>
                     (case tril_zero n 0 (tensor_values L0) of
                        Inl err \<Rightarrow> Inl err
                      | Inr v0 \<Rightarrow>
                          Inr (L0\<lparr>tensor_values := cumprod (one_minus v0)\<rparr>,
                               L1\<lparr>tensor_values := cumprod (one_minus v1)\<rparr>))))"

text \<open>
  Row \<open>tj\<close> of \<open>Mask1\<close> (\<open>off = 2\<close>) and of \<open>Mask0\<close> (\<open>off = 1\<close>):
  \<open>([1]*(tj+off) + mask + [0]*(Tp2-len(mask)-tj-off))[:Tp2]\<close>. A list times a negative
  number is empty, as the truncating subtraction of naturals gives. The argument
  \<open>mask\<close> of the source is \<open>coeffs\<close> here.
\<close>

definition infectivity_mask :: "nat \<Rightarrow> nat \<Rightarrow> real list \<Rightarrow> matrix" where
  "infectivity_mask Tp2 off coeffs =
     map (\<lambda>tj. take Tp2 (replicate (tj + off) 1 @ coeffs
                          @ replicate (Tp2 - length coeffs - tj - off) 0))
         [0..<Tp2]"

text \<open>
  \<open>L.values[:] = L.values[:] * Mask\<close> with a \<open>Tp2 \<times> Tp2\<close> mask: entry by entry when
  the matrices have side \<open>Tp2\<close>; a \<open>1 \<times> 1\<close> mask scales every entry; every other
  pair of shapes does not broadcast (\<open>ValueError\<close>).
\<close>

definition apply_mask :: "ndarray \<Rightarrow> nat \<Rightarrow> matrix \<Rightarrow> py_error + ndarray" where
  "apply_mask a Tp2 M =
     (if n_dim a = Tp2
      then Inr (a\<lparr>elems := map (\<lambda>m. map2 (map2 (*)) m M) (elems a)\<rparr>)
      else if Tp2 = 1
      then Inr (a\<lparr>elems := map (map (map (\<lambda>x. x * M ! 0 ! 0))) (elems a)\<rparr>)
      else Inl ValueError)"

text \<open>
  \<open>compute_Lambdas_dSIR\<close>. \<open>Tp2 = len(Lambda0.values[0][0])\<close> raises \<open>IndexError\<close>
  on an array with no slot or no row.
\<close>

definition compute_Lambdas_dSIR ::
  "SparseTensor \<Rightarrow> SparseTensor \<Rightarrow> contact list \<Rightarrow> real list
     \<Rightarrow> py_error + (SparseTensor \<times> SparseTensor)" where
  "compute_Lambdas_dSIR Lambda0 Lambda1 contacts coeffs =
     (if n_slots (tensor_values Lambda0) = 0 then Inl IndexError
      else if n_dim (tensor_values Lambda0) = 0 then Inl IndexError
      else
       (let Tp2 = n_dim (tensor_values Lambda0);
            L1z = Lambda1\<lparr>tensor_values := fill (tensor_values Lambda1) 0\<rparr>;
            L0z = Lambda0\<lparr>tensor_values := fill (tensor_values Lambda0) 0\<rparr>
        in case write_contacts L0z L1z contacts of
             Inl err \<Rightarrow> Inl err
           | Inr (L0, L1) \<Rightarrow>
               (let n = n_dim (tensor_values L1)
                in case tril_zero n 1 (tensor_values L1) of
                     Inl err \<Rightarrow> Inl err
                   | Inr v1 \<Rightarrow>
                       (case tril_zero n 0 (tensor_values L0) of
                          Inl err \<Rightarrow> Inl err
                        | Inr v0 \<Rightarrow>
                            (let Mask1 = infectivity_mask Tp2 2 coeffs;
                                 Mask0 = infectivity_mask Tp2 1 coeffs
                             in case apply_mask v1 Tp2 Mask1 of
                                  Inl err \<Rightarrow> Inl err
                                | Inr w1 \<Rightarrow>
                                    (case apply_mask v0 Tp2 Mask0 of
                                       Inl err \<Rightarrow> Inl err
                                     | Inr w0 \<Rightarrow>
                                         Inr (L0\<lparr>tensor_values := cumprod (one_minus w0)\<rparr>,
                                              L1\<lparr>tensor_values := cumprod (one_minus w1)\<rparr>)))))))"

section \<open>Views and copies\<close>

text \<open>
  The store of one tensor: the tensor with its own \<open>values\<close> array, and the arrays
  that accessor calls have allocated since. A reference to the matrix of an edge is
  either slot \<open>idx\<close> of the tensor's array (what \<open>get_ij\<close> returns) or entry \<open>k\<close>
  of an allocated array (an entry of what \<open>get_neigh_i\<close> returns).
\<close>

record store =
  tensor :: SparseTensor
  allocated :: "ndarray list"

datatype matrix_ref = ValuesSlot nat | StackEntry nat nat

definition store_get_ij :: "store \<Rightarrow> int \<Rightarrow> int \<Rightarrow> py_error + matrix_ref" where
  "store_get_ij s i j =
     (case get_ij (tensor s) i j of Inl err \<Rightarrow> Inl err | Inr idx \<Rightarrow> Inr (ValuesSlot idx))"

text \<open>The call allocates its result; it returns the new store and the array's address.\<close>

definition store_get_neigh_i :: "store \<Rightarrow> int \<Rightarrow> py_error + (store \<times> nat)" where
  "store_get_neigh_i s i =
     (case get_neigh_i (tensor s) i of
        Inl err \<Rightarrow> Inl err
      | Inr arr \<Rightarrow> Inr (s\<lparr>allocated := allocated s @ [arr]\<rparr>, length (allocated s)))"

fun read_ref :: "store \<Rightarrow> matrix_ref \<Rightarrow> matrix" where
  "read_ref s (ValuesSlot idx) = elems (tensor_values (tensor s)) ! idx"
| "read_ref s (StackEntry a k) = elems (allocated s ! a) ! k"

text \<open>An in-place write of a whole matrix through a reference (\<open>ref[...] = m\<close>).\<close>

fun write_ref :: "store \<Rightarrow> matrix_ref \<Rightarrow> matrix \<Rightarrow> store" where
  "write_ref s (ValuesSlot idx) m =
     s\<lparr>tensor := (tensor s)\<lparr>tensor_values := (tensor_values (tensor s))
          \<lparr>elems := (elems (tensor_values (tensor s)))[idx := m]\<rparr>\<rparr>\<rparr>"
| "write_ref s (StackEntry a k) m =
     s\<lparr>allocated := (allocated s)[a := (allocated s ! a)\<lparr>elems := (elems (allocated s ! a))[k := m]\<rparr>]\<rparr>"

section \<open>Predicates used in the statements\<close>

text \<open>
  Edge \<open>i \<rightarrow> j\<close> exists when \<open>adj_list[j]\<close> can be read and \<open>i\<close> is among the senders
  it lists.
\<close>

definition edge_exists :: "SparseTensor \<Rightarrow> int \<Rightarrow> int \<Rightarrow> bool" where
  "edge_exists t i j =
     (case py_getitem (adj_list t) j of Inl err \<Rightarrow> False | Inr senders \<Rightarrow> i \<in> set senders)"

text \<open>The contacts name nodes by non-negative indices, as the contact format has it.\<close>

definition nonneg_nodes :: "contact list \<Rightarrow> bool" where
  "nonneg_nodes cs = list_all (\<lambda>(i, j, t, lam). 0 \<le> i \<and> 0 \<le> j) cs"

text \<open>
  A same-topology pair, as \<open>init\<close> followed by \<open>init_like\<close> creates it: equal topology
  fields and arrays of equal shape.
\<close>

definition same_topology :: "SparseTensor \<Rightarrow> SparseTensor \<Rightarrow> bool" where
  "same_topology A B =
     (nodes_N A = nodes_N B \<and> time_T A = time_T B \<and> adj_list A = adj_list B
      \<and> idx_list A = idx_list B \<and> num_direct_edges A = num_direct_edges B
      \<and> degree A = degree B
      \<and> n_slots (tensor_values A) = n_slots (tensor_values B)
      \<and> n_dim (tensor_values A) = n_dim (tensor_values B))"

text \<open>Every matrix of the array is \<open>n_dim \<times> n_dim\<close>.\<close>

definition arr_ok :: "ndarray \<Rightarrow> bool" where
  "arr_ok a =
     list_all (\<lambda>m. length m = n_dim a \<and> list_all (\<lambda>row. length row = n_dim a) m) (elems a)"

text \<open>Every entry of the array lies in the unit interval.\<close>

definition in_unit :: "real \<Rightarrow> bool" where
  "in_unit x = (0 \<le> x \<and> x \<le> 1)"

definition unit_entries :: "ndarray \<Rightarrow> bool" where
  "unit_entries a = list_all (list_all (list_all in_unit)) (elems a)"

definition rates_in_unit :: "contact list \<Rightarrow> bool" where
  "rates_in_unit cs = list_all (\<lambda>(i, j, t, lam). in_unit lam) cs"

text \<open>Every row of every matrix is non-increasing from left to right.\<close>

definition rows_nonincreasing :: "ndarray \<Rightarrow> bool" where
  "rows_nonincreasing a = list_all (list_all (sorted_wrt (\<ge>))) (elems a)"

text \<open>The entries \<open>(r, c)\<close> with \<open>c \<le> r + k\<close> of every matrix are zero.\<close>

definition zero_below :: "nat \<Rightarrow> ndarray \<Rightarrow> bool" where
  "zero_below k w =
     (\<forall>e<length (elems w). \<forall>r<n_dim w. \<forall>c<n_dim w. c \<le> r + k \<longrightarrow> elems w ! e ! r ! c = 0)"

text \<open>Every node index of the contacts can index a list of \<open>max N 0\<close> entries.\<close>

definition nodes_in_range :: "int \<Rightarrow> contact list \<Rightarrow> bool" where
  "nodes_in_range N cs =
     list_all (\<lambda>(i, j, t, lam). - int (nat N) \<le> i \<and> i < int (nat N)
                  \<and> - int (nat N) \<le> j \<and> j < int (nat N)) cs"

section \<open>Indexing lemmas\<close>

lemma norm_index_Inl: "norm_index n i = Inl e \<Longrightarrow> e = IndexError"
  by (auto simp: norm_index_def Let_def split: if_splits)

lemma norm_index_Inr: "norm_index n i = Inr k \<Longrightarrow> k < n"
  by (auto simp: norm_index_def Let_def split: if_splits)

lemma norm_index_nonneg: "0 \<le> i \<Longrightarrow> norm_index n i = Inr k \<Longrightarrow> k = nat i"
  by (auto simp: norm_index_def Let_def split: if_splits)

lemma list_index_absent: "x \<notin> set xs \<Longrightarrow> list_index xs x = Inl ValueError"
  by (induction xs) auto

lemma list_index_present:
  "x \<in> set xs \<Longrightarrow> \<exists>k. list_index xs x = Inr k \<and> k < length xs \<and> xs ! k = x"
  by (induction xs) auto

lemma list_index_Inr: "list_index xs x = Inr k \<Longrightarrow> k < length xs \<and> xs ! k = x"
  by (induction xs arbitrary: k) (auto split: if_splits sum.splits)

lemma list_index_distinct:
  "distinct xs \<Longrightarrow> k < length xs \<Longrightarrow> list_index xs (xs ! k) = Inr k"
proof (induction xs arbitrary: k)
  case Nil
  then show ?case by simp
next
  case (Cons y ys)
  show ?case
  proof (cases k)
    case 0
    then show ?thesis by simp
  next
    case (Suc k')
    with Cons show ?thesis by (auto simp: nth_mem)
  qed
qed

lemma get_idx_ij_values: "get_idx_ij (t\<lparr>tensor_values := v\<rparr>) i j = get_idx_ij t i j"
  by (simp add: get_idx_ij_def cong: sum.case_cong)

section \<open>The two-node scenario\<close>

text \<open>
  Claim C1. For \<open>N = 2\<close>, \<open>T = 1\<close> and the single contact \<open>(0, 1, 0, 0.5)\<close>, construction
  gives the adjacency lists \<open>[[1], [0]]\<close>, that is exactly the two directed edges
  \<open>(0, 1)\<close> and \<open>(1, 0)\<close>; after \<open>compute_Lambdas\<close> on the tensor and its
  \<open>init_like\<close> companion, the matrix of edge \<open>(0, 1)\<close> has three columns, its row 0 is
  \<open>[1, 1, 0.5]\<close> in \<open>Lambda1\<close> and \<open>[1, 0.5, 0.5]\<close> in \<open>Lambda0\<close>.
\<close>

theorem scenario_two_nodes:
  "\<exists>L0 L1 R0 R1 m0 m1.
      init 2 1 [(0, 1, 0, 1 / 2)] = Inr L0
    \<and> adj_list L0 = [[1], [0]] \<and> idx_list L0 = [[0], [1]] \<and> num_direct_edges L0 = 2
    \<and> init_like L0 = Inr L1
    \<and> compute_Lambdas L0 L1 [(0, 1, 0, 1 / 2)] = Inr (R0, R1)
    \<and> lookup_matrix R1 0 1 = Inr m1 \<and> length m1 = 3 \<and> m1 ! 0 = [1, 1, 1 / 2]
    \<and> lookup_matrix R0 0 1 = Inr m0 \<and> length m0 = 3 \<and> m0 ! 0 = [1, 1 / 2, 1 / 2]"
proof -
  let ?cs = "[(0, 1, 0, 1 / 2)] :: contact list"
  let ?L0 = "\<lparr>nodes_N = 2, time_T = 1, adj_list = [[1], [0]], idx_list = [[0], [1]],
               num_direct_edges = 2, degree = [1, 1], tensor_values = np_full 2 3 (1 / 9)\<rparr>"
  let ?L1 = "?L0\<lparr>tensor_values := np_full 2 3 1\<rparr>"
  let ?m0 = "[[1, 1 / 2, 1 / 2], [1, 1, 1], [1, 1, 1]] :: matrix"
  let ?m1 = "[[1, 1, 1 / 2], [1, 1, 1], [1, 1, 1]] :: matrix"
  let ?ones = "[[1, 1, 1], [1, 1, 1], [1, 1, 1]] :: matrix"
  let ?R0 = "?L0\<lparr>tensor_values := \<lparr>n_dim = 3, elems = [?ones, ?m0]\<rparr>\<rparr>"
  let ?R1 = "?L0\<lparr>tensor_values := \<lparr>n_dim = 3, elems = [?ones, ?m1]\<rparr>\<rparr>"
  have a: "init 2 1 ?cs = Inr ?L0" by code_simp
  have b: "init_like ?L0 = Inr ?L1" by code_simp
  have c: "compute_Lambdas ?L0 ?L1 ?cs = Inr (?R0, ?R1)" by code_simp
  have d1: "lookup_matrix ?R1 0 1 = Inr ?m1" by code_simp
  have d0: "lookup_matrix ?R0 0 1 = Inr ?m0" by code_simp
  have "init 2 1 ?cs = Inr ?L0
    \<and> adj_list ?L0 = [[1], [0]] \<and> idx_list ?L0 = [[0], [1]] \<and> num_direct_edges ?L0 = 2
    \<and> init_like ?L0 = Inr ?L1
    \<and> compute_Lambdas ?L0 ?L1 ?cs = Inr (?R0, ?R1)
    \<and> lookup_matrix ?R1 0 1 = Inr ?m1 \<and> length ?m1 = 3 \<and> ?m1 ! 0 = [1, 1, 1 / 2]
    \<and> lookup_matrix ?R0 0 1 = Inr ?m0 \<and> length ?m0 = 3 \<and> ?m0 ! 0 = [1, 1 / 2, 1 / 2]"
    using a b c d0 d1 by simp
  then show ?thesis by blast
qed

section \<open>Lookups of edges that do not exist\<close>

lemma py_getitem_Inl: "py_getitem xs i = Inl e \<Longrightarrow> e = IndexError"
  by (auto simp: py_getitem_def split: sum.splits dest: norm_index_Inl)

lemma py_getitem_replicate:
  "py_getitem (replicate n x) j = (if - int n \<le> j \<and> j < int n then Inr x else Inl IndexError)"
  by (auto simp: py_getitem_def norm_index_def Let_def)

lemma get_idx_ij_absent:
  assumes "\<not> edge_exists t i j"
  shows "get_idx_ij t i j =
           Inl (case py_getitem (adj_list t) j of Inl err \<Rightarrow> IndexError | Inr s \<Rightarrow> ValueError)"
proof (cases "py_getitem (adj_list t) j")
  case (Inl e)
  then show ?thesis by (simp add: get_idx_ij_def py_getitem_Inl)
next
  case (Inr senders)
  with assms have "i \<notin> set senders" by (simp add: edge_exists_def)
  then have "list_index senders i = Inl ValueError" by (rule list_index_absent)
  with Inr show ?thesis by (simp add: get_idx_ij_def)
qed

lemma build_idx_zeros: "build_idx c (replicate n 0) = replicate n []"
  by (induction n) simp_all

lemma init_no_contacts:
  "init N T [] =
     (if T = - 2 then Inl ZeroDivisionError
      else if shape_ok 0 (T + 2)
      then Inr \<lparr>nodes_N = N, time_T = T, adj_list = replicate (nat N) [],
                idx_list = replicate (nat N) [], num_direct_edges = 0,
                degree = replicate (nat N) 0,
                tensor_values = np_full 0 (nat (T + 2)) (1 / real_of_int ((T + 2) * (T + 2)))\<rparr>
      else Inl ValueError)"
  by (simp add: init_def edge_list_of_def Let_def build_idx_zeros)

text \<open>
  Claim C3, as the code has it. When edge \<open>i \<rightarrow> j\<close> does not exist, \<open>get_idx_ij\<close>,
  \<open>get_ij\<close> and the read of the matrix all fail: with \<open>ValueError\<close> (raised by
  \<open>list.index\<close>) when \<open>j\<close> indexes a node, and with \<open>IndexError\<close> when \<open>j\<close> is
  outside the node range. On a tensor built from an empty contact list no edge exists,
  so every such call fails in this way for every \<open>(i, j)\<close>.
\<close>

theorem lookup_missing_edge_fails:
  "(\<not> edge_exists t i j \<longrightarrow>
      get_idx_ij t i j
        = Inl (case py_getitem (adj_list t) j of Inl err \<Rightarrow> IndexError | Inr s \<Rightarrow> ValueError)
    \<and> get_ij t i j
        = Inl (case py_getitem (adj_list t) j of Inl err \<Rightarrow> IndexError | Inr s \<Rightarrow> ValueError)
    \<and> lookup_matrix t i j
        = Inl (case py_getitem (adj_list t) j of Inl err \<Rightarrow> IndexError | Inr s \<Rightarrow> ValueError))
   \<and> (init N T [] = Inr t \<longrightarrow>
        \<not> edge_exists t i j
      \<and> get_idx_ij t i j = Inl (if - int (nat N) \<le> j \<and> j < int (nat N) then ValueError else IndexError))"
proof (intro conjI impI)
  assume a: "\<not> edge_exists t i j"
  show g: "get_idx_ij t i j
        = Inl (case py_getitem (adj_list t) j of Inl err \<Rightarrow> IndexError | Inr s \<Rightarrow> ValueError)"
    using a by (rule get_idx_ij_absent)
  show h: "get_ij t i j
        = Inl (case py_getitem (adj_list t) j of Inl err \<Rightarrow> IndexError | Inr s \<Rightarrow> ValueError)"
    by (simp add: get_ij_def g)
  show "lookup_matrix t i j
        = Inl (case py_getitem (adj_list t) j of Inl err \<Rightarrow> IndexError | Inr s \<Rightarrow> ValueError)"
    by (simp add: lookup_matrix_def h)
next
  assume b: "init N T [] = Inr t"
  then have adj: "adj_list t = replicate (nat N) []"
    by (auto simp: init_no_contacts split: if_splits)
  show ne: "\<not> edge_exists t i j"
    by (simp add: edge_exists_def adj py_getitem_replicate)
  show "get_idx_ij t i j = Inl (if - int (nat N) \<le> j \<and> j < int (nat N) then ValueError else IndexError)"
    using get_idx_ij_absent [OF ne] by (simp add: adj py_getitem_replicate)
qed

theorem lookup_missing_edge_fails_witness:
  "init 1 0 [] = Inr \<lparr>nodes_N = 1, time_T = 0, adj_list = [[]], idx_list = [[]],
       num_direct_edges = 0, degree = [0], tensor_values = np_full 0 2 (1 / 4)\<rparr>
   \<and> get_idx_ij \<lparr>nodes_N = 1, time_T = 0, adj_list = [[]], idx_list = [[]],
       num_direct_edges = 0, degree = [0], tensor_values = np_full 0 2 (1 / 4)\<rparr> 0 0 = Inl ValueError
   \<and> lookup_matrix \<lparr>nodes_N = 1, time_T = 0, adj_list = [[]], idx_list = [[]],
       num_direct_edges = 0, degree = [0], tensor_values = np_full 0 2 (1 / 4)\<rparr> 0 5 = Inl IndexError"
proof -
  let ?t = "\<lparr>nodes_N = 1, time_T = 0, adj_list = [[]], idx_list = [[]],
       num_direct_edges = 0, degree = [0], tensor_values = np_full 0 2 (1 / 4)\<rparr>"
  have i: "init 1 0 [] = Inr ?t" by code_simp
  have e0: "\<not> edge_exists ?t 0 0" by code_simp
  have e5: "\<not> edge_exists ?t 0 5" by code_simp
  have p0: "py_getitem (adj_list ?t) 0 = Inr []" by code_simp
  have p5: "py_getitem (adj_list ?t) 5 = Inl IndexError" by code_simp
  show ?thesis
    using i e0 e5 p0 p5 lookup_missing_edge_fails [of ?t 0 0 1 0]
      lookup_missing_edge_fails [of ?t 0 5 1 0]
    by simp
qed

theorem lookup_missing_edge_counterexample:
  "\<exists>t e. init 1 0 [] = Inr t \<and> \<not> edge_exists t 0 0
       \<and> get_idx_ij t 0 0 = Inl e \<and> get_ij t 0 0 = Inl e \<and> \<not> is_LookupError e"
proof -
  let ?t = "\<lparr>nodes_N = 1, time_T = 0, adj_list = [[]], idx_list = [[]],
       num_direct_edges = 0, degree = [0], tensor_values = np_full 0 2 (1 / 4)\<rparr>"
  have "init 1 0 [] = Inr ?t" by code_simp
  moreover have "\<not> edge_exists ?t 0 0" by code_simp
  moreover have "get_idx_ij ?t 0 0 = Inl ValueError" by code_simp
  moreover have "get_ij ?t 0 0 = Inl ValueError" by code_simp
  moreover have "\<not> is_LookupError ValueError" by simp
  ultimately show ?thesis by blast
qed

section \<open>Empty node and edge lists\<close>

lemma populate_no_nodes: "es \<noteq> [] \<Longrightarrow> populate [] es = Inl IndexError"
  by (cases es) (simp_all add: norm_index_def)

lemma np_unique_Nil_iff: "np_unique xs = [] \<longleftrightarrow> xs = []"
  by (cases xs) (simp_all add: np_unique_def)

section \<open>Topology of a constructed tensor\<close>

lemma populate_length: "populate adj es = Inr adj' \<Longrightarrow> length adj' = length adj"
proof (induction es arbitrary: adj)
  case Nil
  then show ?case by simp
next
  case (Cons e es)
  then show ?case by (auto split: sum.splits)
qed

lemma sum_list_length_update:
  "k < length adj \<Longrightarrow>
     sum_list (map length (adj[k := adj ! k @ [b]])) = Suc (sum_list (map length adj))"
proof (induction adj arbitrary: k)
  case Nil
  then show ?case by simp
next
  case (Cons a adj)
  then show ?case by (cases k) simp_all
qed

lemma populate_sum:
  "populate adj es = Inr adj' \<Longrightarrow>
     sum_list (map length adj') = sum_list (map length adj) + length es"
proof (induction es arbitrary: adj)
  case Nil
  then show ?case by simp
next
  case (Cons e es)
  from Cons.prems obtain k where k: "norm_index (length adj) (fst e) = Inr k"
    and rest: "populate (adj[k := adj ! k @ [snd e]]) es = Inr adj'"
    by (auto split: sum.splits)
  from k have "k < length adj" by (rule norm_index_Inr)
  then show ?case using Cons.IH [OF rest] by (simp add: sum_list_length_update)
qed

lemma concat_build_idx: "concat (build_idx c ds) = [c..<c + sum_list ds]"
proof (induction ds arbitrary: c)
  case Nil
  then show ?case by simp
next
  case (Cons d ds)
  have "[c..<c + d] @ [c + d..<c + d + sum_list ds] = [c..<c + d + sum_list ds]"
    by (metis le_add1 upt_add_eq_append)
  with Cons show ?case by (simp add: add.assoc)
qed

lemma length_build_idx: "length (build_idx c ds) = length ds"
  by (induction ds arbitrary: c) simp_all

lemma init_Inr:
  assumes "init N T cs = Inr t"
  obtains es where "edge_list_of cs = Inr es"
    and "populate (replicate (nat N) []) es = Inr (adj_list t)"
    and "idx_list t = build_idx 0 (map length (adj_list t))"
    and "num_direct_edges t = length es"
    and "degree t = map length (adj_list t)"
    and "tensor_values t = np_full (length es) (nat (T + 2)) (1 / real_of_int ((T + 2) * (T + 2)))"
    and "nodes_N t = N" and "time_T t = T" and "- 1 \<le> T"
  using assms unfolding init_def Let_def
  by (auto simp: shape_ok_def split: sum.splits if_splits)

text \<open>
  Claim C5. For every \<open>N\<close>, \<open>T\<close> and contact list on which construction succeeds,
  \<open>idx_list\<close> has one entry per node, and the entries concatenated in node order are
  exactly \<open>0, 1, ..., num_direct_edges - 1\<close>, each slot of the flat \<open>values\<close> array
  once.
\<close>

theorem idx_list_partition:
  assumes "init N T cs = Inr t"
  shows "length (idx_list t) = nat N
       \<and> concat (idx_list t) = [0..<num_direct_edges t]
       \<and> n_slots (tensor_values t) = num_direct_edges t"
proof -
  from assms obtain es where es: "edge_list_of cs = Inr es"
    and pop: "populate (replicate (nat N) []) es = Inr (adj_list t)"
    and idx: "idx_list t = build_idx 0 (map length (adj_list t))"
    and num: "num_direct_edges t = length es"
    and vals: "tensor_values t = np_full (length es) (nat (T + 2)) (1 / real_of_int ((T + 2) * (T + 2)))"
    by (rule init_Inr)
  have len: "length (adj_list t) = nat N"
    using populate_length [OF pop] by simp
  have "sum_list (map length (adj_list t)) = length es"
    using populate_sum [OF pop] by simp
  then have "concat (idx_list t) = [0..<num_direct_edges t]"
    by (simp add: idx concat_build_idx num)
  moreover have "length (idx_list t) = nat N"
    by (simp add: idx length_build_idx len)
  moreover have "n_slots (tensor_values t) = num_direct_edges t"
    by (simp add: vals num n_slots_def np_full_def)
  ultimately show ?thesis by simp
qed

theorem idx_list_partition_witness:
  "\<exists>t. init 3 1 [(0, 1, 0, 1 / 2), (2, 1, 0, 1 / 4), (1, 0, 1, 1 / 2)] = Inr t
      \<and> idx_list t = [[0], [1, 2], [3]]
      \<and> concat (idx_list t) = [0..<num_direct_edges t]
      \<and> n_slots (tensor_values t) = 4"
proof -
  let ?cs = "[(0, 1, 0, 1 / 2), (2, 1, 0, 1 / 4), (1, 0, 1, 1 / 2)] :: contact list"
  let ?t = "\<lparr>nodes_N = 3, time_T = 1, adj_list = [[1], [0, 2], [1]],
             idx_list = [[0], [1, 2], [3]], num_direct_edges = 4, degree = [1, 2, 1],
             tensor_values = np_full 4 3 (1 / 9)\<rparr>"
  have i: "init 3 1 ?cs = Inr ?t" by code_simp
  from idx_list_partition [OF i] have "concat (idx_list ?t) = [0..<num_direct_edges ?t]
     \<and> n_slots (tensor_values ?t) = 4" by simp
  with i show ?thesis by - (rule exI [of _ ?t], simp)
qed

lemma populate_mono:
  "populate adj es = Inr adj' \<Longrightarrow> k < length adj \<Longrightarrow> set (adj ! k) \<subseteq> set (adj' ! k)"
proof (induction es arbitrary: adj)
  case Nil
  then show ?case by simp
next
  case (Cons e es)
  from Cons.prems obtain k' where k': "norm_index (length adj) (fst e) = Inr k'"
    and rest: "populate (adj[k' := adj ! k' @ [snd e]]) es = Inr adj'"
    by (auto split: sum.splits)
  have "set (adj ! k) \<subseteq> set ((adj[k' := adj ! k' @ [snd e]]) ! k)"
    using Cons.prems(2) by (cases "k = k'") auto
  also have "\<dots> \<subseteq> set (adj' ! k)"
    using Cons.IH [OF rest] Cons.prems(2) by simp
  finally show ?case .
qed

lemma populate_mem:
  "populate adj es = Inr adj' \<Longrightarrow> (a, b) \<in> set es \<Longrightarrow>
     \<exists>k. norm_index (length adj) a = Inr k \<and> b \<in> set (adj' ! k)"
proof (induction es arbitrary: adj)
  case Nil
  then show ?case by simp
next
  case (Cons e es)
  from Cons.prems obtain k' where k': "norm_index (length adj) (fst e) = Inr k'"
    and rest: "populate (adj[k' := adj ! k' @ [snd e]]) es = Inr adj'"
    by (auto split: sum.splits)
  have lt: "k' < length adj" using k' by (rule norm_index_Inr)
  show ?case
  proof (cases "e = (a, b)")
    case True
    have "b \<in> set ((adj[k' := adj ! k' @ [snd e]]) ! k')" using lt True by simp
    moreover have "set ((adj[k' := adj ! k' @ [snd e]]) ! k') \<subseteq> set (adj' ! k')"
      using populate_mono [OF rest, of k'] lt by simp
    ultimately show ?thesis using k' True by auto
  next
    case False
    with Cons.prems have "(a, b) \<in> set es" by simp
    from Cons.IH [OF rest this] show ?thesis by simp
  qed
qed

lemma set_np_unique: "set (np_unique xs) = set xs"
  by (simp add: np_unique_def)

lemma set_np_flip: "set (np_flip xs) = (\<lambda>(a, b). (b, a)) ` set xs"
  by (simp add: np_flip_def)

lemma edge_list_of_set:
  assumes "edge_list_of cs = Inr es"
  shows "set es = edge_of ` set cs \<union> (\<lambda>(a, b). (b, a)) ` edge_of ` set cs"
proof (cases "cs = []")
  case True
  with assms show ?thesis by (simp add: edge_list_of_def)
next
  case False
  with assms have "es = np_unique (np_unique (map edge_of cs) @ np_flip (np_unique (map edge_of cs)))"
    by (simp add: edge_list_of_def Let_def split: if_splits)
  then show ?thesis by (simp add: set_np_unique set_np_flip)
qed

text \<open>
  Claim C7. Construction symmetrizes the topology: for every contact with node pair
  \<open>(i, j)\<close> of a contact list on which construction succeeds, \<open>i\<close> is in
  \<open>adj_list[j]\<close> and \<open>j\<close> is in \<open>adj_list[i]\<close>, whether or not a contact has the
  pair \<open>(j, i)\<close>.
\<close>

theorem topology_symmetric:
  assumes "init N T cs = Inr t" and "(i, j, tt, lam) \<in> set cs"
  shows "edge_exists t i j \<and> edge_exists t j i"
proof -
  from assms(1) obtain es where es: "edge_list_of cs = Inr es"
    and pop: "populate (replicate (nat N) []) es = Inr (adj_list t)"
    by (rule init_Inr)
  have len: "length (adj_list t) = length (replicate (nat N) ([] :: int list))"
    using populate_length [OF pop] .
  have "edge_of (i, j, tt, lam) \<in> edge_of ` set cs" using assms(2) by (rule imageI)
  then have e: "(i, j) \<in> edge_of ` set cs" by (simp add: edge_of_def)
  then have ij: "(i, j) \<in> set es" using edge_list_of_set [OF es] by simp
  from e have "(\<lambda>(a, b). (b, a)) (i, j) \<in> (\<lambda>(a, b). (b, a)) ` edge_of ` set cs" by (rule imageI)
  then have ji: "(j, i) \<in> set es" using edge_list_of_set [OF es] by simp
  have ex: "edge_exists t a b" if "(b, a) \<in> set es" for a b
  proof -
    from populate_mem [OF pop that] obtain k
      where "norm_index (length (replicate (nat N) ([] :: int list))) b = Inr k"
        and "a \<in> set (adj_list t ! k)" by blast
    then show ?thesis by (simp add: edge_exists_def py_getitem_def len)
  qed
  from ex [OF ji] ex [OF ij] show ?thesis by simp
qed

theorem topology_symmetric_witness:
  "\<exists>t. init 3 1 [(0, 1, 0, 1 / 2), (2, 1, 0, 1 / 4)] = Inr t
      \<and> edge_exists t 2 1 \<and> edge_exists t 1 2"
proof -
  let ?cs = "[(0, 1, 0, 1 / 2), (2, 1, 0, 1 / 4)] :: contact list"
  let ?t = "\<lparr>nodes_N = 3, time_T = 1, adj_list = [[1], [0, 2], [1]],
             idx_list = [[0], [1, 2], [3]], num_direct_edges = 4, degree = [1, 2, 1],
             tensor_values = np_full 4 3 (1 / 9)\<rparr>"
  have i: "init 3 1 ?cs = Inr ?t" by code_simp
  have m: "(2, 1, 0, 1 / 4) \<in> set ?cs" by simp
  from topology_symmetric [OF i m] i show ?thesis by - (rule exI [of _ ?t], simp)
qed

section \<open>Order of the adjacency lists\<close>

lemma strict_sorted_remdups_adj:
  fixes xs :: "('a :: linorder) list"
  shows "sorted xs \<Longrightarrow> sorted_wrt (<) (remdups_adj xs)"
  by (induction xs rule: remdups_adj.induct) (auto split: if_splits)

lemma np_unique_strict_sorted: "sorted_wrt (<) (np_unique xs)"
  by (simp add: np_unique_def strict_sorted_remdups_adj)

lemma np_unique_cong: "set xs = set ys \<Longrightarrow> np_unique xs = np_unique ys"
proof -
  assume eq: "set xs = set ys"
  have "sorted (np_unique xs)" "distinct (np_unique xs)"
    "sorted (np_unique ys)" "distinct (np_unique ys)"
    using np_unique_strict_sorted [of xs] np_unique_strict_sorted [of ys]
    by (simp_all add: strict_sorted_iff)
  moreover have "set (np_unique xs) = set (np_unique ys)" by (simp add: set_np_unique eq)
  ultimately show ?thesis by (rule sorted_distinct_set_unique)
qed

lemma edge_list_of_cong:
  assumes "edge_list_of cs = Inr es" and "edge_list_of cs' = Inr es'"
    and "edge_of ` set cs' = edge_of ` set cs"
  shows "es' = es"
proof (cases "cs = []")
  case True
  with assms(3) have "cs' = []" by simp
  with True assms(1,2) show ?thesis by (simp add: edge_list_of_def)
next
  case False
  with assms(3) have ne: "cs' \<noteq> []" by auto
  from False assms(1)
  have a: "es = np_unique (np_unique (map edge_of cs) @ np_flip (np_unique (map edge_of cs)))"
    by (simp add: edge_list_of_def Let_def split: if_splits)
  from ne assms(2)
  have b: "es' = np_unique (np_unique (map edge_of cs') @ np_flip (np_unique (map edge_of cs')))"
    by (simp add: edge_list_of_def Let_def split: if_splits)
  have "np_unique (map edge_of cs') = np_unique (map edge_of cs)"
    by (rule np_unique_cong) (simp add: assms(3))
  with a b show ?thesis by simp
qed

lemma strict_sorted_senders:
  fixes es :: "(int \<times> int) list"
  shows "sorted_wrt (<) es \<Longrightarrow> sorted_wrt (<) (map snd (filter (\<lambda>e. fst e = a) es))"
  by (induction es) (auto simp: less_prod_def')

lemma populate_nonneg:
  assumes "populate adj es = Inr adj'" and "\<forall>e\<in>set es. 0 \<le> fst e" and "k < length adj"
  shows "adj' ! k = adj ! k @ map snd (filter (\<lambda>e. fst e = int k) es)"
  using assms
proof (induction es arbitrary: adj)
  case Nil
  then show ?case by simp
next
  case (Cons e es)
  from Cons.prems(1) obtain k' where k': "norm_index (length adj) (fst e) = Inr k'"
    and rest: "populate (adj[k' := adj ! k' @ [snd e]]) es = Inr adj'"
    by (auto split: sum.splits)
  from Cons.prems(2) have nn: "0 \<le> fst e" by simp
  then have k'_eq: "k' = nat (fst e)" using k' by (rule norm_index_nonneg)
  have step: "adj' ! k = (adj[k' := adj ! k' @ [snd e]]) ! k
       @ map snd (filter (\<lambda>e. fst e = int k) es)"
    using Cons.IH [OF rest] Cons.prems(2,3) by simp
  show ?case
  proof (cases "k = k'")
    case True
    then have "fst e = int k" using k'_eq nn by simp
    then show ?thesis using step True Cons.prems(3) by simp
  next
    case False
    then have "fst e \<noteq> int k" using k'_eq nn by auto
    then show ?thesis using step False by simp
  qed
qed

lemma build_idx_nth:
  "k < length ds \<Longrightarrow>
     build_idx c ds ! k = [c + sum_list (take k ds)..<c + sum_list (take (Suc k) ds)]"
proof (induction ds arbitrary: c k)
  case Nil
  then show ?case by simp
next
  case (Cons d ds)
  show ?case
  proof (cases k)
    case 0
    then show ?thesis by simp
  next
    case (Suc k')
    with Cons.prems have "k' < length ds" by simp
    from Cons.IH [OF this, of "c + d"] Suc show ?thesis by (simp add: add.assoc)
  qed
qed

lemma sum_list_take_le_nat: "sum_list (take n (ds :: nat list)) \<le> sum_list ds"
  by (metis append_take_drop_id le_add1 sum_list.append)

lemma edge_list_of_mem:
  assumes "edge_list_of cs = Inr es"
  shows "e \<in> set es \<longleftrightarrow>
           (\<exists>c\<in>set cs. e = edge_of c \<or> e = (snd (edge_of c), fst (edge_of c)))"
  unfolding edge_list_of_set [OF assms] image_iff Un_iff case_prod_beta Bex_def
  by blast

lemma init_adj_nonneg:
  assumes "init N T cs = Inr t" and "nonneg_nodes cs" and "k < length (adj_list t)"
  obtains es where "edge_list_of cs = Inr es"
    and "adj_list t ! k = map snd (filter (\<lambda>e. fst e = int k) es)"
proof -
  from assms(1) obtain es where es: "edge_list_of cs = Inr es"
    and pop: "populate (replicate (nat N) []) es = Inr (adj_list t)"
    by (rule init_Inr)
  have nn: "\<forall>c\<in>set cs. 0 \<le> fst (edge_of c) \<and> 0 \<le> snd (edge_of c)"
    using assms(2) by (auto simp: nonneg_nodes_def list_all_iff edge_of_def)
  have "0 \<le> fst e" if "e \<in> set es" for e
  proof -
    from that obtain c where "c \<in> set cs"
      and "e = edge_of c \<or> e = (snd (edge_of c), fst (edge_of c))"
      using edge_list_of_mem [OF es] by blast
    then show ?thesis using nn by auto
  qed
  then have "\<forall>e\<in>set es. 0 \<le> fst e" by simp
  moreover have "k < length (replicate (nat N) ([] :: int list))"
    using assms(3) populate_length [OF pop] by simp
  ultimately have "adj_list t ! k
      = replicate (nat N) [] ! k @ map snd (filter (\<lambda>e. fst e = int k) es)"
    by (rule populate_nonneg [OF pop])
  moreover have "replicate (nat N) ([] :: int list) ! k = []"
    using assms(3) populate_length [OF pop] by simp
  ultimately show ?thesis using es that by simp
qed

lemma init_adj_sorted:
  assumes "init N T cs = Inr t" and "nonneg_nodes cs" and "k < length (adj_list t)"
  shows "sorted_wrt (<) (adj_list t ! k)"
proof -
  from assms obtain es where es: "edge_list_of cs = Inr es"
    and k: "adj_list t ! k = map snd (filter (\<lambda>e. fst e = int k) es)"
    by (rule init_adj_nonneg)
  have "sorted_wrt (<) es"
    using es by (auto simp: edge_list_of_def Let_def np_unique_strict_sorted split: if_splits)
  then show ?thesis unfolding k by (rule strict_sorted_senders)
qed

lemma init_topology_cong:
  assumes "init N T cs = Inr t" and "init N T' cs' = Inr t'"
    and "edge_of ` set cs' = edge_of ` set cs"
  shows "adj_list t' = adj_list t \<and> idx_list t' = idx_list t
       \<and> degree t' = degree t \<and> num_direct_edges t' = num_direct_edges t"
proof -
  from assms(1) obtain es where es: "edge_list_of cs = Inr es"
    and pop: "populate (replicate (nat N) []) es = Inr (adj_list t)"
    and idx: "idx_list t = build_idx 0 (map length (adj_list t))"
    and num: "num_direct_edges t = length es"
    and deg: "degree t = map length (adj_list t)"
    by (rule init_Inr)
  from assms(2) obtain es' where es': "edge_list_of cs' = Inr es'"
    and pop': "populate (replicate (nat N) []) es' = Inr (adj_list t')"
    and idx': "idx_list t' = build_idx 0 (map length (adj_list t'))"
    and num': "num_direct_edges t' = length es'"
    and deg': "degree t' = map length (adj_list t')"
    by (rule init_Inr)
  have "es' = es" using es es' assms(3) by (rule edge_list_of_cong)
  with pop pop' have "adj_list t' = adj_list t" by simp
  then show ?thesis using idx idx' num num' deg deg' \<open>es' = es\<close> by simp
qed

lemma init_neighbors_order:
  assumes "init N T cs = Inr t" and "nonneg_nodes cs"
    and "py_getitem (adj_list t) j = Inr senders" and "n_slots v = num_direct_edges t"
  shows "\<exists>arr. get_neigh_i (t\<lparr>tensor_values := v\<rparr>) j = Inr arr
           \<and> length (elems arr) = length senders
           \<and> (\<forall>k<length senders. \<exists>idx.
                  get_idx_ij t (senders ! k) j = Inr idx \<and> idx < n_slots v
                \<and> elems arr ! k = elems v ! idx
                \<and> lookup_matrix (t\<lparr>tensor_values := v\<rparr>) (senders ! k) j = Inr (elems v ! idx))"
proof -
  let ?t = "t\<lparr>tensor_values := v\<rparr>"
  from assms(1) obtain es where es: "edge_list_of cs = Inr es"
    and pop: "populate (replicate (nat N) []) es = Inr (adj_list t)"
    and idx: "idx_list t = build_idx 0 (map length (adj_list t))"
    and num: "num_direct_edges t = length es"
    by (rule init_Inr)
  have E: "sum_list (map length (adj_list t)) = length es"
    using populate_sum [OF pop] by simp
  have slots: "n_slots v = length es" using assms(4) num by simp
  from assms(3) obtain kj where kj: "norm_index (length (adj_list t)) j = Inr kj"
    and s: "senders = adj_list t ! kj"
    by (auto simp: py_getitem_def split: sum.splits)
  have lt: "kj < length (adj_list t)" using kj by (rule norm_index_Inr)
  define off where "off = sum_list (take kj (map length (adj_list t)))"
  have rng: "idx_list t ! kj = [off..<off + length senders]"
    using lt by (simp add: idx build_idx_nth off_def take_Suc_conv_app_nth s)
  have "off + length senders = sum_list (take (Suc kj) (map length (adj_list t)))"
    using lt by (simp add: off_def take_Suc_conv_app_nth s)
  then have bound: "off + length senders \<le> length es"
    using sum_list_take_le_nat [of "Suc kj" "map length (adj_list t)"] E by simp
  have gi: "py_getitem (idx_list t) j = Inr [off..<off + length senders]"
    using kj rng by (simp add: py_getitem_def idx length_build_idx)
  have all: "list_all (\<lambda>k. k < n_slots v) [off..<off + length senders]"
    using bound by (simp add: list_all_iff slots)
  define arr where "arr = \<lparr>n_dim = n_dim v,
      elems = map (\<lambda>k. elems v ! k) [off..<off + length senders]\<rparr>"
  have g: "get_neigh_i ?t j = Inr arr"
    using gi all by (simp add: get_neigh_i_def arr_def)
  have dist: "distinct senders"
    using init_adj_sorted [OF assms(1,2) lt] by (simp add: s strict_sorted_iff)
  have "get_idx_ij t (senders ! k) j = Inr (off + k) \<and> off + k < n_slots v
      \<and> elems arr ! k = elems v ! (off + k)
      \<and> lookup_matrix ?t (senders ! k) j = Inr (elems v ! (off + k))"
    if "k < length senders" for k
  proof -
    have li: "list_index senders (senders ! k) = Inr k"
      using dist that by (rule list_index_distinct)
    have gx: "get_idx_ij t (senders ! k) j = Inr (off + k)"
      using assms(3) li gi that by (simp add: get_idx_ij_def np_getitem_def)
    have b: "off + k < n_slots v" using that bound slots by simp
    from gx b have "get_ij ?t (senders ! k) j = Inr (off + k)"
      by (simp add: get_ij_def get_idx_ij_values)
    then have "lookup_matrix ?t (senders ! k) j = Inr (elems v ! (off + k))"
      by (simp add: lookup_matrix_def read_slot_def)
    moreover have "elems arr ! k = elems v ! (off + k)" using that by (simp add: arr_def)
    ultimately show ?thesis using gx b by simp
  qed
  with g show ?thesis by (auto simp: arr_def)
qed

text \<open>
  Claim C10, as the code has it. On a contact list with non-negative node indices on
  which construction succeeds, every adjacency list is strictly increasing. The
  topology is the same for every contact list with the same set of \<open>(i, j)\<close> pairs,
  whatever the order, the multiplicity, the times, the rates and \<open>T\<close>. Whatever the
  \<open>values\<close> array holds, the array that \<open>get_neigh_i\<close> returns for a node holds at
  position \<open>k\<close> the slot of the edge from the \<open>k\<close>-th sender in that increasing
  order, the slot \<open>get_idx_ij\<close> names and \<open>get_ij\<close> reads.
\<close>

theorem adjacency_strictly_increasing:
  assumes "init N T cs = Inr t" and "nonneg_nodes cs"
  shows "(\<forall>j<length (adj_list t). sorted_wrt (<) (adj_list t ! j))
     \<and> (\<forall>T' cs' t'. init N T' cs' = Inr t' \<and> edge_of ` set cs' = edge_of ` set cs \<longrightarrow>
            adj_list t' = adj_list t \<and> idx_list t' = idx_list t
          \<and> degree t' = degree t \<and> num_direct_edges t' = num_direct_edges t)
     \<and> (\<forall>j senders v. py_getitem (adj_list t) j = Inr senders
            \<and> n_slots v = num_direct_edges t \<longrightarrow>
          (\<exists>arr. get_neigh_i (t\<lparr>tensor_values := v\<rparr>) j = Inr arr
             \<and> length (elems arr) = length senders
             \<and> (\<forall>k<length senders. \<exists>idx.
                    get_idx_ij t (senders ! k) j = Inr idx \<and> idx < n_slots v
                  \<and> elems arr ! k = elems v ! idx
                  \<and> lookup_matrix (t\<lparr>tensor_values := v\<rparr>) (senders ! k) j
                      = Inr (elems v ! idx))))"
proof (intro conjI)
  show "\<forall>j<length (adj_list t). sorted_wrt (<) (adj_list t ! j)"
    using init_adj_sorted [OF assms] by blast
  show "\<forall>T' cs' t'. init N T' cs' = Inr t' \<and> edge_of ` set cs' = edge_of ` set cs \<longrightarrow>
            adj_list t' = adj_list t \<and> idx_list t' = idx_list t
          \<and> degree t' = degree t \<and> num_direct_edges t' = num_direct_edges t"
    using init_topology_cong [OF assms(1)] by blast
  show "\<forall>j senders v. py_getitem (adj_list t) j = Inr senders
            \<and> n_slots v = num_direct_edges t \<longrightarrow>
          (\<exists>arr. get_neigh_i (t\<lparr>tensor_values := v\<rparr>) j = Inr arr
             \<and> length (elems arr) = length senders
             \<and> (\<forall>k<length senders. \<exists>idx.
                    get_idx_ij t (senders ! k) j = Inr idx \<and> idx < n_slots v
                  \<and> elems arr ! k = elems v ! idx
                  \<and> lookup_matrix (t\<lparr>tensor_values := v\<rparr>) (senders ! k) j
                      = Inr (elems v ! idx)))"
    using init_neighbors_order [OF assms] by blast
qed

theorem adjacency_strictly_increasing_witness:
  "\<exists>t t' arr. init 3 1 [(2, 1, 0, 1 / 4), (0, 1, 0, 1 / 2), (1, 0, 1, 1 / 2), (0, 1, 1, 1 / 2)] = Inr t
      \<and> nonneg_nodes [(2, 1, 0, 1 / 4), (0, 1, 0, 1 / 2), (1, 0, 1, 1 / 2), (0, 1, 1, 1 / 2)]
      \<and> adj_list t = [[1], [0, 2], [1]]
      \<and> sorted_wrt (<) (adj_list t ! 1)
      \<and> init 3 4 [(1, 2, 0, 1), (1, 0, 3, 0)] = Inr t'
      \<and> adj_list t' = adj_list t \<and> idx_list t' = idx_list t
      \<and> get_neigh_i (t\<lparr>tensor_values := \<lparr>n_dim = 1, elems = [[[5]], [[6]], [[7]], [[8]]]\<rparr>\<rparr>) 1
           = Inr arr
      \<and> elems arr = [[[6]], [[7]]]
      \<and> get_idx_ij t 0 1 = Inr 1 \<and> get_idx_ij t 2 1 = Inr 2"
proof -
  let ?cs = "[(2, 1, 0, 1 / 4), (0, 1, 0, 1 / 2), (1, 0, 1, 1 / 2), (0, 1, 1, 1 / 2)] :: contact list"
  let ?cs' = "[(1, 2, 0, 1), (1, 0, 3, 0)] :: contact list"
  let ?t = "\<lparr>nodes_N = 3, time_T = 1, adj_list = [[1], [0, 2], [1]],
             idx_list = [[0], [1, 2], [3]], num_direct_edges = 4, degree = [1, 2, 1],
             tensor_values = np_full 4 3 (1 / 9)\<rparr>"
  let ?t' = "\<lparr>nodes_N = 3, time_T = 4, adj_list = [[1], [0, 2], [1]],
             idx_list = [[0], [1, 2], [3]], num_direct_edges = 4, degree = [1, 2, 1],
             tensor_values = np_full 4 6 (1 / 36)\<rparr>"
  let ?v = "\<lparr>n_dim = 1, elems = [[[5]], [[6]], [[7]], [[8 :: real]]]\<rparr>"
  let ?arr = "\<lparr>n_dim = 1, elems = [[[6]], [[7 :: real]]]\<rparr>"
  have i: "init 3 1 ?cs = Inr ?t" by code_simp
  have i': "init 3 4 ?cs' = Inr ?t'" by code_simp
  have n: "nonneg_nodes ?cs" by code_simp
  have p: "py_getitem (adj_list ?t) 1 = Inr [0, 2]" by code_simp
  have s: "n_slots ?v = num_direct_edges ?t" by (simp add: n_slots_def)
  note th = adjacency_strictly_increasing [OF i n]
  have 1: "sorted_wrt (<) (adj_list ?t ! 1)"
    by (rule th [THEN conjunct1, rule_format]) simp
  from th [THEN conjunct2, THEN conjunct2, rule_format, OF conjI [OF p s]]
  obtain arr where g: "get_neigh_i (?t\<lparr>tensor_values := ?v\<rparr>) 1 = Inr arr"
    and l: "length (elems arr) = length [0 :: int, 2]"
    and e: "\<forall>k<length [0 :: int, 2]. \<exists>idx. get_idx_ij ?t ([0, 2] ! k) 1 = Inr idx
        \<and> idx < n_slots ?v \<and> elems arr ! k = elems ?v ! idx
        \<and> lookup_matrix (?t\<lparr>tensor_values := ?v\<rparr>) ([0, 2] ! k) 1 = Inr (elems ?v ! idx)"
    by blast
  have x0: "get_idx_ij ?t 0 1 = Inr 1" and x2: "get_idx_ij ?t 2 1 = Inr 2" by code_simp+
  from e [rule_format, of 0] x0 have a0: "elems arr ! 0 = [[6]]" by simp
  from e [rule_format, of 1] x2 have a1: "elems arr ! 1 = [[7]]" by simp
  from l obtain m0 m1 where "elems arr = [m0, m1]"
    by (auto simp: length_Suc_conv)
  with a0 a1 have el: "elems arr = [[[6]], [[7]]]" by simp
  from i i' n 1 g el x0 x2 show ?thesis
    by - (rule exI [of _ ?t], rule exI [of _ ?t'], rule exI [of _ arr], simp)
qed

theorem adjacency_strictly_increasing_counterexample:
  "\<exists>t. init 3 0 [(- 2, 2, 0, 1 / 2), (1, 0, 0, 1 / 2)] = Inr t
      \<and> adj_list t = [[1], [2, 0], [- 2]]
      \<and> \<not> sorted_wrt (<) (adj_list t ! 1)"
proof -
  let ?t = "\<lparr>nodes_N = 3, time_T = 0, adj_list = [[1], [2, 0], [- 2]],
             idx_list = [[0], [1, 2], [3]], num_direct_edges = 4, degree = [1, 2, 1],
             tensor_values = np_full 4 2 (1 / 4)\<rparr>"
  have "init 3 0 [(- 2, 2, 0, 1 / 2), (1, 0, 0, 1 / 2)] = Inr ?t" by code_simp
  then show ?thesis by - (rule exI [of _ ?t], simp)
qed

section \<open>Views of get_ij and copies of get_neigh_i\<close>

lemma get_ij_Inr:
  assumes "get_ij t i j = Inr idx" and "py_getitem (adj_list t) j = Inr senders"
    and "list_index senders i = Inr k"
  obtains rng where "py_getitem (idx_list t) j = Inr rng" and "k < length rng"
    and "rng ! k = idx" and "idx < length (elems (tensor_values t))"
  using assms
  by (auto simp: get_ij_def get_idx_ij_def np_getitem_def n_slots_def
           split: sum.splits if_splits)

lemma get_neigh_i_Inr:
  assumes "get_neigh_i t j = Inr arr" and "py_getitem (idx_list t) j = Inr rng"
  shows "elems arr = map (\<lambda>k. elems (tensor_values t) ! k) rng"
    and "list_all (\<lambda>k. k < n_slots (tensor_values t)) rng"
  using assms by (auto simp: get_neigh_i_def split: if_splits)

lemma get_ij_update_slot:
  "get_ij (t\<lparr>tensor_values := (tensor_values t)\<lparr>elems := (elems (tensor_values t))[idx := m]\<rparr>\<rparr>) i j
     = get_ij t i j"
  by (simp add: get_ij_def get_idx_ij_values n_slots_def cong: sum.case_cong)

text \<open>
  Claim C8, as the code has it. For an existing edge \<open>(i, j)\<close> with \<open>i\<close> at position
  \<open>k\<close> of \<open>adj_list[j]\<close>, \<open>get_ij(i, j)\<close> is a view of slot \<open>idx\<close> of the tensor's
  array and entry \<open>k\<close> of the array that \<open>get_neigh_i(j)\<close> returns holds equal values.
  A write through the view of \<open>get_ij\<close> is seen by later calls of \<open>get_ij\<close> and of
  \<open>get_neigh_i\<close>. The array of \<open>get_neigh_i\<close> is a copy: a write into it leaves the
  tensor, and so what \<open>get_ij\<close> reads, unchanged.
\<close>

theorem view_and_copy:
  assumes "store_get_ij s i j = Inr (ValuesSlot idx)"
    and "py_getitem (adj_list (tensor s)) j = Inr senders"
    and "list_index senders i = Inr k"
    and "store_get_neigh_i s j = Inr (s', a)"
  shows "read_ref s' (StackEntry a k) = read_ref s' (ValuesSlot idx)
     \<and> (\<forall>m. store_get_ij (write_ref s (ValuesSlot idx) m) i j = Inr (ValuesSlot idx)
            \<and> read_ref (write_ref s (ValuesSlot idx) m) (ValuesSlot idx) = m
            \<and> (\<exists>s2 a2. store_get_neigh_i (write_ref s (ValuesSlot idx) m) j = Inr (s2, a2)
                  \<and> read_ref s2 (StackEntry a2 k) = m))
     \<and> (\<forall>m. tensor (write_ref s' (StackEntry a k) m) = tensor s'
            \<and> store_get_ij (write_ref s' (StackEntry a k) m) i j = Inr (ValuesSlot idx)
            \<and> read_ref (write_ref s' (StackEntry a k) m) (ValuesSlot idx)
                = read_ref s' (ValuesSlot idx))"
proof -
  let ?t = "tensor s"
  from assms(1) have g: "get_ij ?t i j = Inr idx"
    by (auto simp: store_get_ij_def split: sum.splits)
  from g assms(2,3) obtain rng where rng: "py_getitem (idx_list ?t) j = Inr rng"
    and k: "k < length rng" and rk: "rng ! k = idx"
    and idx: "idx < length (elems (tensor_values ?t))"
    by (rule get_ij_Inr)
  from assms(4) obtain arr where arr: "get_neigh_i ?t j = Inr arr"
    and s': "s' = s\<lparr>allocated := allocated s @ [arr]\<rparr>" and a: "a = length (allocated s)"
    by (auto simp: store_get_neigh_i_def split: sum.splits)
  have el: "elems arr = map (\<lambda>k. elems (tensor_values ?t) ! k) rng"
    and all: "list_all (\<lambda>k. k < n_slots (tensor_values ?t)) rng"
    using get_neigh_i_Inr [OF arr rng] by simp_all
  have eq: "read_ref s' (StackEntry a k) = read_ref s' (ValuesSlot idx)"
    using k rk by (simp add: s' a el)
  have wr: "store_get_ij (write_ref s (ValuesSlot idx) m) i j = Inr (ValuesSlot idx)
            \<and> read_ref (write_ref s (ValuesSlot idx) m) (ValuesSlot idx) = m
            \<and> (\<exists>s2 a2. store_get_neigh_i (write_ref s (ValuesSlot idx) m) j = Inr (s2, a2)
                  \<and> read_ref s2 (StackEntry a2 k) = m)" for m
  proof -
    let ?s = "write_ref s (ValuesSlot idx) m"
    let ?arr = "\<lparr>n_dim = n_dim (tensor_values ?t),
                 elems = map (\<lambda>k. (elems (tensor_values ?t))[idx := m] ! k) rng\<rparr>"
    have "store_get_ij ?s i j = Inr (ValuesSlot idx)"
      using g by (simp add: store_get_ij_def get_ij_update_slot)
    moreover have "read_ref ?s (ValuesSlot idx) = m" using idx by simp
    moreover have "get_neigh_i (tensor ?s) j = Inr ?arr"
      using rng all by (simp add: get_neigh_i_def n_slots_def)
    then have "store_get_neigh_i ?s j
        = Inr (?s\<lparr>allocated := allocated ?s @ [?arr]\<rparr>, length (allocated ?s))"
      by (simp add: store_get_neigh_i_def)
    moreover have "read_ref (?s\<lparr>allocated := allocated ?s @ [?arr]\<rparr>)
        (StackEntry (length (allocated ?s)) k) = m"
      using k rk idx by simp
    ultimately show ?thesis by blast
  qed
  have cp: "tensor (write_ref s' (StackEntry a k) m) = tensor s'
            \<and> store_get_ij (write_ref s' (StackEntry a k) m) i j = Inr (ValuesSlot idx)
            \<and> read_ref (write_ref s' (StackEntry a k) m) (ValuesSlot idx)
                = read_ref s' (ValuesSlot idx)" for m
    using g by (simp add: store_get_ij_def s')
  from eq wr cp show ?thesis by blast
qed

theorem view_and_copy_witness:
  "\<exists>s s' a. s = \<lparr>tensor = \<lparr>nodes_N = 2, time_T = 0, adj_list = [[1], [0]],
                    idx_list = [[0], [1]], num_direct_edges = 2, degree = [1, 1],
                    tensor_values = \<lparr>n_dim = 2, elems = [[[1, 2], [3, 4]], [[5, 6], [7, 8]]]\<rparr>\<rparr>,
                  allocated = []\<rparr>
     \<and> store_get_ij s 0 1 = Inr (ValuesSlot 1)
     \<and> store_get_neigh_i s 1 = Inr (s', a)
     \<and> read_ref s' (StackEntry a 0) = [[5, 6], [7, 8]]
     \<and> read_ref s' (ValuesSlot 1) = [[5, 6], [7, 8]]
     \<and> read_ref (write_ref s' (StackEntry a 0) [[0, 0], [0, 0]]) (ValuesSlot 1) = [[5, 6], [7, 8]]"
proof -
  let ?t = "\<lparr>nodes_N = 2, time_T = 0, adj_list = [[1], [0]],
             idx_list = [[0], [1]], num_direct_edges = 2, degree = [1, 1],
             tensor_values = \<lparr>n_dim = 2, elems = [[[1, 2], [3, 4]], [[5, 6], [7, 8]]]\<rparr>\<rparr>"
  let ?s = "\<lparr>tensor = ?t, allocated = []\<rparr>"
  let ?s' = "\<lparr>tensor = ?t, allocated = [\<lparr>n_dim = 2, elems = [[[5, 6], [7, 8]]]\<rparr>]\<rparr>"
  have 1: "store_get_ij ?s 0 1 = Inr (ValuesSlot 1)" by code_simp
  have 2: "py_getitem (adj_list (tensor ?s)) 1 = Inr [0]" by code_simp
  have 3: "list_index [0 :: int] 0 = Inr 0" by simp
  have 4: "store_get_neigh_i ?s 1 = Inr (?s', 0)" by code_simp
  have 5: "read_ref ?s' (ValuesSlot 1) = [[5, 6], [7, 8]]" by simp
  from view_and_copy [OF 1 2 3 4] 5
  have "read_ref ?s' (StackEntry 0 0) = [[5, 6], [7, 8]]
      \<and> read_ref (write_ref ?s' (StackEntry 0 0) [[0, 0], [0, 0]]) (ValuesSlot 1) = [[5, 6], [7, 8]]"
    by simp
  with 1 4 5 show ?thesis by - (rule exI [of _ ?s], rule exI [of _ ?s'], rule exI [of _ 0], simp)
qed

theorem view_and_copy_counterexample:
  "\<exists>s s' a. s = \<lparr>tensor = \<lparr>nodes_N = 2, time_T = 0, adj_list = [[1], [0]],
                    idx_list = [[0], [1]], num_direct_edges = 2, degree = [1, 1],
                    tensor_values = \<lparr>n_dim = 2, elems = [[[1, 2], [3, 4]], [[5, 6], [7, 8]]]\<rparr>\<rparr>,
                  allocated = []\<rparr>
     \<and> store_get_ij s 0 1 = Inr (ValuesSlot 1)
     \<and> store_get_neigh_i s 1 = Inr (s', a)
     \<and> read_ref (write_ref s' (StackEntry a 0) [[0, 0], [0, 0]]) (StackEntry a 0) = [[0, 0], [0, 0]]
     \<and> read_ref (write_ref s' (StackEntry a 0) [[0, 0], [0, 0]]) (ValuesSlot 1) \<noteq> [[0, 0], [0, 0]]"
proof -
  let ?t = "\<lparr>nodes_N = 2, time_T = 0, adj_list = [[1], [0]],
             idx_list = [[0], [1]], num_direct_edges = 2, degree = [1, 1],
             tensor_values = \<lparr>n_dim = 2, elems = [[[1, 2], [3, 4]], [[5, 6], [7, 8]]]\<rparr>\<rparr>"
  let ?s = "\<lparr>tensor = ?t, allocated = []\<rparr>"
  let ?s' = "\<lparr>tensor = ?t, allocated = [\<lparr>n_dim = 2, elems = [[[5, 6], [7, 8]]]\<rparr>]\<rparr>"
  have 1: "store_get_ij ?s 0 1 = Inr (ValuesSlot 1)" by code_simp
  have 4: "store_get_neigh_i ?s 1 = Inr (?s', 0)" by code_simp
  show ?thesis using 1 4 by - (rule exI [of _ ?s], rule exI [of _ ?s'], rule exI [of _ 0], simp)
qed

section \<open>Properties of the Lambda builders\<close>

subsection \<open>Shapes\<close>

lemma arr_ok_nth:
  "arr_ok a \<longleftrightarrow>
     (\<forall>e<length (elems a). length (elems a ! e) = n_dim a
         \<and> (\<forall>r<n_dim a. length (elems a ! e ! r) = n_dim a))"
  by (auto simp: arr_ok_def list_all_length)

lemma arr_ok_fill: "arr_ok (fill a v)"
  by (simp add: arr_ok_def fill_def np_full_def list_all_length)

lemma shape_fill: "n_dim (fill a v) = n_dim a" "length (elems (fill a v)) = length (elems a)"
  by (simp_all add: fill_def np_full_def n_slots_def)

lemma arr_ok_update:
  assumes "arr_ok a" and "length m = n_dim a" and "\<forall>row\<in>set m. length row = n_dim a"
  shows "arr_ok (a\<lparr>elems := (elems a)[idx := m]\<rparr>)"
proof -
  have "set ((elems a)[idx := m]) \<subseteq> insert m (set (elems a))"
    by (rule set_update_subset_insert)
  with assms show ?thesis by (auto simp: arr_ok_def list_all_iff)
qed

lemma assign_col_Inr:
  assumes "assign_col L i j c v = Inr L'"
  obtains idx col where "idx < length (elems (tensor_values L))"
    and "col < n_dim (tensor_values L)"
    and "L' = L\<lparr>tensor_values := (tensor_values L)
                  \<lparr>elems := (elems (tensor_values L))
                     [idx := set_col (elems (tensor_values L) ! idx) col v]\<rparr>\<rparr>"
proof -
  from assms obtain idx col where g: "get_ij L i j = Inr idx"
    and c: "norm_index (n_dim (tensor_values L)) c = Inr col"
    and L': "L' = L\<lparr>tensor_values := (tensor_values L)
                  \<lparr>elems := (elems (tensor_values L))
                     [idx := set_col (elems (tensor_values L) ! idx) col v]\<rparr>\<rparr>"
    by (auto simp: assign_col_def split: sum.splits)
  from g have "idx < length (elems (tensor_values L))"
    by (auto simp: get_ij_def n_slots_def split: sum.splits if_splits)
  moreover from c have "col < n_dim (tensor_values L)" by (rule norm_index_Inr)
  ultimately show ?thesis using L' that by blast
qed

lemma assign_col_shape:
  assumes "assign_col L i j c v = Inr L'"
  shows "n_dim (tensor_values L') = n_dim (tensor_values L)"
    and "length (elems (tensor_values L')) = length (elems (tensor_values L))"
    and "arr_ok (tensor_values L) \<Longrightarrow> arr_ok (tensor_values L')"
proof -
  from assms obtain idx col where idx: "idx < length (elems (tensor_values L))"
    and L': "L' = L\<lparr>tensor_values := (tensor_values L)
                  \<lparr>elems := (elems (tensor_values L))
                     [idx := set_col (elems (tensor_values L) ! idx) col v]\<rparr>\<rparr>"
    by (rule assign_col_Inr)
  show "n_dim (tensor_values L') = n_dim (tensor_values L)" by (simp add: L')
  show "length (elems (tensor_values L')) = length (elems (tensor_values L))" by (simp add: L')
  assume ok: "arr_ok (tensor_values L)"
  let ?m = "elems (tensor_values L) ! idx"
  from ok idx have m: "length ?m = n_dim (tensor_values L)"
    "\<forall>row\<in>set ?m. length row = n_dim (tensor_values L)"
    by (auto simp: arr_ok_def list_all_length in_set_conv_nth)
  have "arr_ok ((tensor_values L)\<lparr>elems := (elems (tensor_values L))[idx := set_col ?m col v]\<rparr>)"
    using ok m by (intro arr_ok_update) (auto simp: set_col_def)
  then show "arr_ok (tensor_values L')" by (simp add: L')
qed

lemma write_contacts_shape:
  assumes "write_contacts A B cs = Inr (A', B')"
  shows "n_dim (tensor_values A') = n_dim (tensor_values A)
       \<and> length (elems (tensor_values A')) = length (elems (tensor_values A))
       \<and> (arr_ok (tensor_values A) \<longrightarrow> arr_ok (tensor_values A'))
       \<and> n_dim (tensor_values B') = n_dim (tensor_values B)
       \<and> length (elems (tensor_values B')) = length (elems (tensor_values B))
       \<and> (arr_ok (tensor_values B) \<longrightarrow> arr_ok (tensor_values B'))"
  using assms
proof (induction A B cs rule: write_contacts.induct)
  case (1 Lambda0 Lambda1)
  then show ?case by simp
next
  case (2 Lambda0 Lambda1 i j t lam ccs)
  from "2.prems" obtain L1 L0 where a1: "assign_col Lambda1 i j (t + 2) lam = Inr L1"
    and a0: "assign_col Lambda0 i j (t + 1) lam = Inr L0"
    and rest: "write_contacts L0 L1 ccs = Inr (A', B')"
    by (auto split: sum.splits)
  from "2.IH" [OF a1 a0 rest] assign_col_shape [OF a1] assign_col_shape [OF a0]
  show ?case by simp
qed

lemma length_tril_zero_matrix:
  "length (tril_zero_matrix n k m) = length m"
  "r < length m \<Longrightarrow> length (tril_zero_matrix n k m ! r) = length (m ! r)"
  by (simp_all add: tril_zero_matrix_def)

lemma tril_zero_matrix_nth:
  "r < length m \<Longrightarrow> c < length (m ! r) \<Longrightarrow>
     tril_zero_matrix n k m ! r ! c = (if r < n \<and> c < n \<and> c \<le> r + k then 0 else m ! r ! c)"
  by (simp add: tril_zero_matrix_def)

lemma tril_zero_shape:
  assumes "tril_zero n k a = Inr v"
  shows "n_dim v = n_dim a" and "length (elems v) = length (elems a)"
    and "arr_ok a \<Longrightarrow> arr_ok v"
proof -
  from assms have v: "v = a\<lparr>elems := map (tril_zero_matrix n k) (elems a)\<rparr>"
    by (simp add: tril_zero_def split: if_splits)
  show "n_dim v = n_dim a" "length (elems v) = length (elems a)" by (simp_all add: v)
  assume "arr_ok a"
  then show "arr_ok v"
    by (simp add: v arr_ok_nth length_tril_zero_matrix)
qed

lemma tril_zero_entry:
  assumes "tril_zero n k a = Inr v" and "arr_ok a"
    and "e < length (elems a)" and "r < n_dim a" and "c < n_dim a"
  shows "elems v ! e ! r ! c
           = (if r < n \<and> c < n \<and> c \<le> r + k then 0 else elems a ! e ! r ! c)"
proof -
  from assms(1) have v: "v = a\<lparr>elems := map (tril_zero_matrix n k) (elems a)\<rparr>"
    by (simp add: tril_zero_def split: if_splits)
  from assms(2-5) have "r < length (elems a ! e)" "c < length (elems a ! e ! r)"
    by (simp_all add: arr_ok_nth)
  then show ?thesis using assms(3) by (simp add: v tril_zero_matrix_nth)
qed

subsection \<open>The infectivity masks\<close>

lemma length_infectivity_mask: "length (infectivity_mask n off coeffs) = n"
  by (simp add: infectivity_mask_def)

lemma length_infectivity_mask_row:
  "r < n \<Longrightarrow> length (infectivity_mask n off coeffs ! r) = n"
  by (auto simp: infectivity_mask_def)

lemma infectivity_mask_nth:
  assumes "r < n" and "c < n"
  shows "infectivity_mask n off coeffs ! r ! c
           = (if c < r + off then 1
              else if c < r + off + length coeffs then coeffs ! (c - (r + off))
              else 0)"
proof -
  let ?row = "replicate (r + off) 1 @ coeffs @ replicate (n - length coeffs - r - off) (0 :: real)"
  have "infectivity_mask n off coeffs ! r = take n ?row"
    using assms(1) by (simp add: infectivity_mask_def)
  then have "infectivity_mask n off coeffs ! r ! c = ?row ! c"
    using assms(2) by (simp only: nth_take)
  also have "\<dots> = (if c < r + off then 1
              else if c < r + off + length coeffs then coeffs ! (c - (r + off))
              else 0)"
    using assms by (auto simp: nth_append)
  finally show ?thesis .
qed

lemma infectivity_mask_unit:
  assumes "list_all in_unit coeffs" and "row \<in> set (infectivity_mask n off coeffs)"
    and "x \<in> set row"
  shows "in_unit x"
proof -
  from assms(2) obtain tj where
    row: "row = take n (replicate (tj + off) 1 @ coeffs @ replicate (n - length coeffs - tj - off) 0)"
    by (auto simp: infectivity_mask_def)
  from assms(3) have "x \<in> set (replicate (tj + off) 1 @ coeffs
      @ replicate (n - length coeffs - tj - off) 0)"
    unfolding row by (rule in_set_takeD)
  then have "x = 1 \<or> x \<in> set coeffs \<or> x = 0" by auto
  with assms(1) show ?thesis by (auto simp: in_unit_def list_all_iff)
qed

lemma apply_mask_same_dim:
  assumes "apply_mask v n (infectivity_mask n off coeffs) = Inr w"
    and "n_dim v = n" and "arr_ok v"
  shows "n_dim w = n" and "length (elems w) = length (elems v)" and "arr_ok w"
    and "e < length (elems v) \<Longrightarrow> r < n \<Longrightarrow> c < n \<Longrightarrow>
           elems w ! e ! r ! c = elems v ! e ! r ! c * infectivity_mask n off coeffs ! r ! c"
proof -
  let ?M = "infectivity_mask n off coeffs"
  from assms(1,2) have w: "w = v\<lparr>elems := map (\<lambda>m. map2 (map2 (*)) m ?M) (elems v)\<rparr>"
    by (simp add: apply_mask_def)
  show "n_dim w = n" "length (elems w) = length (elems v)" by (simp_all add: w assms(2))
  have len: "length (elems v ! e) = n" "r < n \<Longrightarrow> length (elems v ! e ! r) = n"
    if "e < length (elems v)" for e r
    using assms(2,3) that by (simp_all add: arr_ok_nth)
  show "arr_ok w"
    by (simp add: w arr_ok_nth assms(2) len length_infectivity_mask length_infectivity_mask_row)
  show "elems w ! e ! r ! c = elems v ! e ! r ! c * ?M ! r ! c"
    if "e < length (elems v)" "r < n" "c < n"
    using that by (simp add: w len length_infectivity_mask length_infectivity_mask_row)
qed

subsection \<open>Running products\<close>

lemma length_cumprod_acc: "length (cumprod_acc p xs) = length xs"
  by (induction xs arbitrary: p) simp_all

lemma length_cumprod_row: "length (cumprod_row xs) = length xs"
  by (cases xs) (simp_all add: length_cumprod_acc)

lemma cumprod_acc_ones:
  "c < length xs \<Longrightarrow> \<forall>c'\<le>c. xs ! c' = 1 \<Longrightarrow> cumprod_acc p xs ! c = p"
proof (induction xs arbitrary: p c)
  case Nil
  then show ?case by simp
next
  case (Cons x xs)
  from Cons.prems(2) have x: "x = 1" by (metis le0 nth_Cons_0)
  show ?case
  proof (cases c)
    case 0
    with x show ?thesis by simp
  next
    case (Suc c')
    have "\<forall>d\<le>c'. xs ! d = 1"
      using Cons.prems(2) Suc by (metis Suc_le_mono nth_Cons_Suc)
    with Cons.IH [of c' "p * x"] Cons.prems(1) Suc x show ?thesis by simp
  qed
qed

lemma cumprod_row_ones:
  assumes "c < length xs" and "\<forall>c'\<le>c. xs ! c' = 1"
  shows "cumprod_row xs ! c = 1"
proof (cases xs)
  case Nil
  with assms show ?thesis by simp
next
  case (Cons x ys)
  from assms(2) Cons have x: "x = 1" by (metis le0 nth_Cons_0)
  show ?thesis
  proof (cases c)
    case 0
    with Cons x show ?thesis by simp
  next
    case (Suc c')
    have "\<forall>d\<le>c'. ys ! d = 1"
      using assms(2) Suc Cons by (metis Suc_le_mono nth_Cons_Suc)
    moreover have "c' < length ys" using assms(1) Suc Cons by simp
    ultimately have "cumprod_acc x ys ! c' = x" by (rule cumprod_acc_ones [rotated])
    with Cons Suc x show ?thesis by simp
  qed
qed

lemma cumprod_acc_nonincreasing:
  assumes "\<forall>x\<in>set xs. in_unit x" and "0 \<le> p"
  shows "sorted_wrt (\<ge>) (cumprod_acc p xs) \<and> (\<forall>y\<in>set (cumprod_acc p xs). 0 \<le> y \<and> y \<le> p)"
  using assms
proof (induction xs arbitrary: p)
  case Nil
  then show ?case by simp
next
  case (Cons x xs)
  from Cons.prems have x: "0 \<le> x" "x \<le> 1" by (simp_all add: in_unit_def)
  have px: "0 \<le> p * x" "p * x \<le> p"
    using x Cons.prems(2) by (simp_all add: mult_left_le)
  from Cons.IH [of "p * x"] Cons.prems(1) px(1)
  have ih: "sorted_wrt (\<ge>) (cumprod_acc (p * x) xs)"
    "\<forall>y\<in>set (cumprod_acc (p * x) xs). 0 \<le> y \<and> y \<le> p * x" by simp_all
  from ih px show ?case by auto
qed

lemma cumprod_row_nonincreasing:
  assumes "\<forall>x\<in>set xs. in_unit x"
  shows "sorted_wrt (\<ge>) (cumprod_row xs)"
proof (cases xs)
  case Nil
  then show ?thesis by simp
next
  case (Cons x ys)
  with assms have "0 \<le> x" "\<forall>y\<in>set ys. in_unit y" by (simp_all add: in_unit_def)
  from cumprod_acc_nonincreasing [OF this(2,1)] Cons show ?thesis by simp
qed

subsection \<open>Entries in the unit interval\<close>

lemma unit_entries_iff:
  "unit_entries a \<longleftrightarrow> (\<forall>m\<in>set (elems a). \<forall>row\<in>set m. \<forall>x\<in>set row. in_unit x)"
  by (simp add: unit_entries_def list_all_iff)

lemma unit_entries_fill: "in_unit v \<Longrightarrow> unit_entries (fill a v)"
  by (auto simp: unit_entries_iff fill_def np_full_def)

lemma unit_entries_assign_col:
  assumes "assign_col L i j c v = Inr L'" and "in_unit v" and "unit_entries (tensor_values L)"
  shows "unit_entries (tensor_values L')"
proof -
  from assms(1) obtain idx col where idx: "idx < length (elems (tensor_values L))"
    and L': "L' = L\<lparr>tensor_values := (tensor_values L)
                  \<lparr>elems := (elems (tensor_values L))
                     [idx := set_col (elems (tensor_values L) ! idx) col v]\<rparr>\<rparr>"
    by (rule assign_col_Inr)
  let ?m = "elems (tensor_values L) ! idx"
  have "?m \<in> set (elems (tensor_values L))" using idx by (rule nth_mem)
  then have m: "\<forall>row\<in>set ?m. \<forall>x\<in>set row. in_unit x"
    using assms(3) by (simp add: unit_entries_iff)
  have new: "\<forall>row\<in>set (set_col ?m col v). \<forall>x\<in>set row. in_unit x"
  proof (intro ballI)
    fix row x assume "row \<in> set (set_col ?m col v)" and x: "x \<in> set row"
    then obtain row0 where r0: "row0 \<in> set ?m" and row: "row = row0[col := v]"
      by (auto simp: set_col_def)
    from x row have "x \<in> insert v (set row0)"
      using set_update_subset_insert [of row0 col v] by auto
    with r0 m assms(2) show "in_unit x" by auto
  qed
  have "set ((elems (tensor_values L))[idx := set_col ?m col v])
      \<subseteq> insert (set_col ?m col v) (set (elems (tensor_values L)))"
    by (rule set_update_subset_insert)
  with new assms(3) show ?thesis by (auto simp: unit_entries_iff L')
qed

lemma unit_entries_write_contacts:
  assumes "write_contacts A B cs = Inr (A', B')" and "rates_in_unit cs"
    and "unit_entries (tensor_values A)" and "unit_entries (tensor_values B)"
  shows "unit_entries (tensor_values A') \<and> unit_entries (tensor_values B')"
  using assms
proof (induction A B cs rule: write_contacts.induct)
  case (1 Lambda0 Lambda1)
  then show ?case by simp
next
  case (2 Lambda0 Lambda1 i j t lam ccs)
  from "2.prems"(1) obtain L1 L0 where a1: "assign_col Lambda1 i j (t + 2) lam = Inr L1"
    and a0: "assign_col Lambda0 i j (t + 1) lam = Inr L0"
    and rest: "write_contacts L0 L1 ccs = Inr (A', B')"
    by (auto split: sum.splits)
  from "2.prems"(2) have lam: "in_unit lam" and ccs: "rates_in_unit ccs"
    by (simp_all add: rates_in_unit_def)
  have "unit_entries (tensor_values L1)"
    using a1 lam "2.prems"(4) by (rule unit_entries_assign_col)
  moreover have "unit_entries (tensor_values L0)"
    using a0 lam "2.prems"(3) by (rule unit_entries_assign_col)
  ultimately show ?case using "2.IH" [OF a1 a0 rest ccs] by simp
qed

lemma unit_entries_tril_zero:
  assumes "tril_zero n k a = Inr v" and "unit_entries a"
  shows "unit_entries v"
proof -
  from assms(1) have v: "v = a\<lparr>elems := map (tril_zero_matrix n k) (elems a)\<rparr>"
    by (simp add: tril_zero_def split: if_splits)
  have "in_unit x" if "m \<in> set (elems a)" "row \<in> set (tril_zero_matrix n k m)" "x \<in> set row"
    for m row x
  proof -
    from that(2,3) obtain r c where "r < length m" "c < length (m ! r)"
      and "x = 0 \<or> x = m ! r ! c"
      by (auto simp: tril_zero_matrix_def split: if_splits)
    moreover have "in_unit (m ! r ! c)" if "r < length m" "c < length (m ! r)"
    proof -
      from that have "m ! r \<in> set m" "m ! r ! c \<in> set (m ! r)" by (simp_all add: nth_mem)
      with assms(2) \<open>m \<in> set (elems a)\<close> show ?thesis by (simp add: unit_entries_iff)
    qed
    ultimately show ?thesis by (auto simp: in_unit_def)
  qed
  then show ?thesis by (auto simp: unit_entries_iff v)
qed

lemma in_unit_mult: "in_unit x \<Longrightarrow> in_unit y \<Longrightarrow> in_unit (x * y)"
  by (simp add: in_unit_def mult_le_one)

lemma unit_entries_apply_mask:
  assumes "apply_mask v n (infectivity_mask n off coeffs) = Inr w"
    and "unit_entries v" and "list_all in_unit coeffs"
  shows "unit_entries w"
proof -
  let ?M = "infectivity_mask n off coeffs"
  have M: "in_unit y" if "row \<in> set ?M" "y \<in> set row" for row y
    using assms(3) that by (rule infectivity_mask_unit)
  show ?thesis
  proof (cases "n_dim v = n")
    case True
    with assms(1) have w: "w = v\<lparr>elems := map (\<lambda>m. map2 (map2 (*)) m ?M) (elems v)\<rparr>"
      by (simp add: apply_mask_def)
    have "in_unit z" if "m \<in> set (elems v)" "row \<in> set (map2 (map2 (*)) m ?M)" "z \<in> set row"
      for m row z
    proof -
      from that(2) obtain r1 r2 where rr: "(r1, r2) \<in> set (zip m ?M)"
        and row: "row = map2 (*) r1 r2" by auto
      from that(3) row obtain x y where xy: "(x, y) \<in> set (zip r1 r2)" and z: "z = x * y"
        by auto
      from rr have "r1 \<in> set m" "r2 \<in> set ?M" by (auto dest: set_zip_leftD set_zip_rightD)
      moreover from xy have "x \<in> set r1" "y \<in> set r2"
        by (auto dest: set_zip_leftD set_zip_rightD)
      ultimately have "in_unit x" "in_unit y"
        using assms(2) that(1) M by (auto simp: unit_entries_iff)
      then show ?thesis unfolding z by (rule in_unit_mult)
    qed
    then show ?thesis by (auto simp: unit_entries_iff w)
  next
    case False
    with assms(1) have n: "n = 1"
      and w: "w = v\<lparr>elems := map (map (map (\<lambda>x. x * ?M ! 0 ! 0))) (elems v)\<rparr>"
      by (simp_all add: apply_mask_def split: if_splits)
    have "?M ! 0 \<in> set ?M" by (simp add: n length_infectivity_mask)
    moreover have "?M ! 0 ! 0 \<in> set (?M ! 0)"
      by (simp add: n length_infectivity_mask_row)
    ultimately have "in_unit (?M ! 0 ! 0)" by (rule M)
    then show ?thesis
      using assms(2) by (auto simp: unit_entries_iff w intro: in_unit_mult)
  qed
qed

lemma unit_entries_one_minus: "unit_entries a \<Longrightarrow> unit_entries (one_minus a)"
  by (auto simp: unit_entries_iff one_minus_def in_unit_def)

lemma rows_nonincreasing_cumprod: "unit_entries a \<Longrightarrow> rows_nonincreasing (cumprod a)"
  by (auto simp: unit_entries_iff rows_nonincreasing_def cumprod_def list_all_iff
           intro: cumprod_row_nonincreasing)

subsection \<open>The steps of the two builders\<close>

lemma compute_Lambdas_Inr:
  assumes "compute_Lambdas L0 L1 cs = Inr (R0, R1)"
  obtains A0 A1 v0 v1 where
    "write_contacts (L0\<lparr>tensor_values := fill (tensor_values L0) 0\<rparr>)
       (L1\<lparr>tensor_values := fill (tensor_values L1) 0\<rparr>) cs = Inr (A0, A1)"
    and "tril_zero (n_dim (tensor_values A1)) 1 (tensor_values A1) = Inr v1"
    and "tril_zero (n_dim (tensor_values A1)) 0 (tensor_values A0) = Inr v0"
    and "tensor_values R0 = cumprod (one_minus v0)"
    and "tensor_values R1 = cumprod (one_minus v1)"
  using assms unfolding compute_Lambdas_def Let_def
  by (auto split: sum.splits prod.splits)

lemma compute_Lambdas_dSIR_Inr:
  assumes "compute_Lambdas_dSIR L0 L1 cs coeffs = Inr (R0, R1)"
  obtains A0 A1 v0 v1 w0 w1 where
    "write_contacts (L0\<lparr>tensor_values := fill (tensor_values L0) 0\<rparr>)
       (L1\<lparr>tensor_values := fill (tensor_values L1) 0\<rparr>) cs = Inr (A0, A1)"
    and "tril_zero (n_dim (tensor_values A1)) 1 (tensor_values A1) = Inr v1"
    and "tril_zero (n_dim (tensor_values A1)) 0 (tensor_values A0) = Inr v0"
    and "apply_mask v1 (n_dim (tensor_values L0))
           (infectivity_mask (n_dim (tensor_values L0)) 2 coeffs) = Inr w1"
    and "apply_mask v0 (n_dim (tensor_values L0))
           (infectivity_mask (n_dim (tensor_values L0)) 1 coeffs) = Inr w0"
    and "tensor_values R0 = cumprod (one_minus w0)"
    and "tensor_values R1 = cumprod (one_minus w1)"
    and "0 < n_slots (tensor_values L0)" and "0 < n_dim (tensor_values L0)"
  using assms unfolding compute_Lambdas_dSIR_def Let_def
  by (auto split: sum.splits prod.splits if_splits)

lemma written_arrays:
  assumes "write_contacts (L0\<lparr>tensor_values := fill (tensor_values L0) 0\<rparr>)
       (L1\<lparr>tensor_values := fill (tensor_values L1) 0\<rparr>) cs = Inr (A0, A1)"
  shows "n_dim (tensor_values A0) = n_dim (tensor_values L0)"
    and "length (elems (tensor_values A0)) = length (elems (tensor_values L0))"
    and "arr_ok (tensor_values A0)"
    and "n_dim (tensor_values A1) = n_dim (tensor_values L1)"
    and "length (elems (tensor_values A1)) = length (elems (tensor_values L1))"
    and "arr_ok (tensor_values A1)"
    and "rates_in_unit cs \<Longrightarrow> unit_entries (tensor_values A0)"
    and "rates_in_unit cs \<Longrightarrow> unit_entries (tensor_values A1)"
proof -
  from write_contacts_shape [OF assms]
  show "n_dim (tensor_values A0) = n_dim (tensor_values L0)"
    and "length (elems (tensor_values A0)) = length (elems (tensor_values L0))"
    and "arr_ok (tensor_values A0)"
    and "n_dim (tensor_values A1) = n_dim (tensor_values L1)"
    and "length (elems (tensor_values A1)) = length (elems (tensor_values L1))"
    and "arr_ok (tensor_values A1)"
    by (simp_all add: shape_fill arr_ok_fill)
  have z: "in_unit 0" by (simp add: in_unit_def)
  assume "rates_in_unit cs"
  from unit_entries_write_contacts [OF assms this]
  show "unit_entries (tensor_values A0)" and "unit_entries (tensor_values A1)"
    by (simp_all add: unit_entries_fill [OF z])
qed

text \<open>
  Claim C6. When every contact rate lies in \<open>[0, 1]\<close>, every row of every matrix
  of both tensors is non-increasing from left to right after \<open>compute_Lambdas\<close>, and
  after \<open>compute_Lambdas_dSIR\<close> when every mask coefficient lies in \<open>[0, 1]\<close> too.
\<close>

theorem rows_nonincreasing_after_builders:
  assumes "rates_in_unit cs"
  shows "(compute_Lambdas L0 L1 cs = Inr (R0, R1) \<longrightarrow>
            rows_nonincreasing (tensor_values R0) \<and> rows_nonincreasing (tensor_values R1))
       \<and> (list_all in_unit coeffs \<and> compute_Lambdas_dSIR L0 L1 cs coeffs = Inr (R0, R1) \<longrightarrow>
            rows_nonincreasing (tensor_values R0) \<and> rows_nonincreasing (tensor_values R1))"
proof (intro conjI impI)
  assume run: "compute_Lambdas L0 L1 cs = Inr (R0, R1)"
  from run obtain A0 A1 v0 v1 where
    wr: "write_contacts (L0\<lparr>tensor_values := fill (tensor_values L0) 0\<rparr>)
       (L1\<lparr>tensor_values := fill (tensor_values L1) 0\<rparr>) cs = Inr (A0, A1)"
    and t1: "tril_zero (n_dim (tensor_values A1)) 1 (tensor_values A1) = Inr v1"
    and t0: "tril_zero (n_dim (tensor_values A1)) 0 (tensor_values A0) = Inr v0"
    and r0: "tensor_values R0 = cumprod (one_minus v0)"
    and r1: "tensor_values R1 = cumprod (one_minus v1)"
    by (rule compute_Lambdas_Inr)
  have "unit_entries v0" "unit_entries v1"
    using written_arrays(7,8) [OF wr assms] t0 t1 by (blast intro: unit_entries_tril_zero)+
  then show "rows_nonincreasing (tensor_values R0)" "rows_nonincreasing (tensor_values R1)"
    unfolding r0 r1 by (blast intro: rows_nonincreasing_cumprod unit_entries_one_minus)+
next
  assume "list_all in_unit coeffs \<and> compute_Lambdas_dSIR L0 L1 cs coeffs = Inr (R0, R1)"
  then have co: "list_all in_unit coeffs"
    and run: "compute_Lambdas_dSIR L0 L1 cs coeffs = Inr (R0, R1)" by simp_all
  from run obtain A0 A1 v0 v1 w0 w1 where
    wr: "write_contacts (L0\<lparr>tensor_values := fill (tensor_values L0) 0\<rparr>)
       (L1\<lparr>tensor_values := fill (tensor_values L1) 0\<rparr>) cs = Inr (A0, A1)"
    and t1: "tril_zero (n_dim (tensor_values A1)) 1 (tensor_values A1) = Inr v1"
    and t0: "tril_zero (n_dim (tensor_values A1)) 0 (tensor_values A0) = Inr v0"
    and m1: "apply_mask v1 (n_dim (tensor_values L0))
           (infectivity_mask (n_dim (tensor_values L0)) 2 coeffs) = Inr w1"
    and m0: "apply_mask v0 (n_dim (tensor_values L0))
           (infectivity_mask (n_dim (tensor_values L0)) 1 coeffs) = Inr w0"
    and r0: "tensor_values R0 = cumprod (one_minus w0)"
    and r1: "tensor_values R1 = cumprod (one_minus w1)"
    by (rule compute_Lambdas_dSIR_Inr)
  have "unit_entries v0" "unit_entries v1"
    using written_arrays(7,8) [OF wr assms] t0 t1 by (blast intro: unit_entries_tril_zero)+
  then have "unit_entries w0" "unit_entries w1"
    using m0 m1 co by (blast intro: unit_entries_apply_mask)+
  then show "rows_nonincreasing (tensor_values R0)" "rows_nonincreasing (tensor_values R1)"
    unfolding r0 r1 by (blast intro: rows_nonincreasing_cumprod unit_entries_one_minus)+
qed

theorem rows_nonincreasing_after_builders_witness:
  "\<exists>L0 L1 R0 R1 S0 S1.
      init 2 1 [(0, 1, 0, 1 / 2), (1, 0, 0, 1 / 4)] = Inr L0 \<and> init_like L0 = Inr L1
    \<and> rates_in_unit [(0, 1, 0, 1 / 2), (1, 0, 0, 1 / 4)]
    \<and> compute_Lambdas L0 L1 [(0, 1, 0, 1 / 2), (1, 0, 0, 1 / 4)] = Inr (R0, R1)
    \<and> elems (tensor_values R0) ! 1 ! 0 = [1, 1 / 2, 1 / 2]
    \<and> rows_nonincreasing (tensor_values R0) \<and> rows_nonincreasing (tensor_values R1)
    \<and> list_all in_unit [1 / 2]
    \<and> compute_Lambdas_dSIR L0 L1 [(0, 1, 0, 1 / 2), (1, 0, 0, 1 / 4)] [1 / 2] = Inr (S0, S1)
    \<and> elems (tensor_values S0) ! 1 ! 0 = [1, 3 / 4, 3 / 4]
    \<and> rows_nonincreasing (tensor_values S0) \<and> rows_nonincreasing (tensor_values S1)"
proof -
  let ?cs = "[(0, 1, 0, 1 / 2), (1, 0, 0, 1 / 4)] :: contact list"
  let ?L0 = "\<lparr>nodes_N = 2, time_T = 1, adj_list = [[1], [0]], idx_list = [[0], [1]],
               num_direct_edges = 2, degree = [1, 1], tensor_values = np_full 2 3 (1 / 9)\<rparr>"
  let ?L1 = "?L0\<lparr>tensor_values := np_full 2 3 1\<rparr>"
  let ?ones = "[1, 1, 1] :: real list"
  let ?R0 = "?L0\<lparr>tensor_values := \<lparr>n_dim = 3,
      elems = [[[1, 3 / 4, 3 / 4], ?ones, ?ones], [[1, 1 / 2, 1 / 2], ?ones, ?ones]]\<rparr>\<rparr>"
  let ?R1 = "?L0\<lparr>tensor_values := \<lparr>n_dim = 3,
      elems = [[[1, 1, 3 / 4], ?ones, ?ones], [[1, 1, 1 / 2], ?ones, ?ones]]\<rparr>\<rparr>"
  let ?S0 = "?L0\<lparr>tensor_values := \<lparr>n_dim = 3,
      elems = [[[1, 7 / 8, 7 / 8], ?ones, ?ones], [[1, 3 / 4, 3 / 4], ?ones, ?ones]]\<rparr>\<rparr>"
  let ?S1 = "?L0\<lparr>tensor_values := \<lparr>n_dim = 3,
      elems = [[[1, 1, 7 / 8], ?ones, ?ones], [[1, 1, 3 / 4], ?ones, ?ones]]\<rparr>\<rparr>"
  have a: "init 2 1 ?cs = Inr ?L0" by code_simp
  have b: "init_like ?L0 = Inr ?L1" by code_simp
  have r: "rates_in_unit ?cs" by code_simp
  have c: "compute_Lambdas ?L0 ?L1 ?cs = Inr (?R0, ?R1)" by code_simp
  have m: "list_all in_unit [1 / 2]" by code_simp
  have d: "compute_Lambdas_dSIR ?L0 ?L1 ?cs [1 / 2] = Inr (?S0, ?S1)" by code_simp
  from rows_nonincreasing_after_builders [OF r, of ?L0 ?L1 ?R0 ?R1 "[1 / 2]"] c
  have R: "rows_nonincreasing (tensor_values ?R0) \<and> rows_nonincreasing (tensor_values ?R1)"
    by blast
  from rows_nonincreasing_after_builders [OF r, of ?L0 ?L1 ?S0 ?S1 "[1 / 2]"] m d
  have S: "rows_nonincreasing (tensor_values ?S0) \<and> rows_nonincreasing (tensor_values ?S1)"
    by blast
  show ?thesis
    using a b r c m d R S
    by - (rule exI [of _ ?L0], rule exI [of _ ?L1], rule exI [of _ ?R0], rule exI [of _ ?R1], rule exI [of _ ?S0], rule exI [of _ ?S1], simp)
qed

subsection \<open>The region the triangular zeroing clears\<close>

lemma shape_final:
  "n_dim (cumprod (one_minus w)) = n_dim w"
  "length (elems (cumprod (one_minus w))) = length (elems w)"
  by (simp_all add: cumprod_def one_minus_def)

lemma arr_ok_final: "arr_ok w \<Longrightarrow> arr_ok (cumprod (one_minus w))"
  by (simp add: arr_ok_nth cumprod_def one_minus_def length_cumprod_row)

lemma final_entry_one:
  assumes "arr_ok w" and "e < length (elems w)" and "r < n_dim w" and "c < n_dim w"
    and "\<forall>c'\<le>c. elems w ! e ! r ! c' = 0"
  shows "elems (cumprod (one_minus w)) ! e ! r ! c = 1"
proof -
  let ?row = "map (\<lambda>x. 1 - x) (elems w ! e ! r)"
  from assms(1-3) have len: "length (elems w ! e) = n_dim w" "length (elems w ! e ! r) = n_dim w"
    by (simp_all add: arr_ok_nth)
  have "elems (cumprod (one_minus w)) ! e ! r = cumprod_row ?row"
    using assms(2,3) len by (simp add: cumprod_def one_minus_def)
  moreover have "cumprod_row ?row ! c = 1"
  proof (rule cumprod_row_ones)
    show "c < length ?row" using assms(4) len by simp
    show "\<forall>c'\<le>c. ?row ! c' = 1" using assms(4,5) len by simp
  qed
  ultimately show ?thesis by simp
qed

lemma zero_below_tril_zero:
  assumes "tril_zero n k a = Inr v" and "arr_ok a" and "n = n_dim a"
  shows "zero_below k v"
  unfolding zero_below_def
proof (intro allI impI)
  fix e r c
  assume "e < length (elems v)" "r < n_dim v" "c < n_dim v" "c \<le> r + k"
  then show "elems v ! e ! r ! c = 0"
    using tril_zero_entry [OF assms(1,2), of e r c] tril_zero_shape(1,2) [OF assms(1)] assms(3)
    by simp
qed

lemma zero_below_apply_mask:
  assumes "apply_mask v n (infectivity_mask n off coeffs) = Inr w"
    and "n_dim v = n" and "arr_ok v" and "zero_below k v"
  shows "zero_below k w"
  unfolding zero_below_def
proof (intro allI impI)
  fix e r c
  assume a: "e < length (elems w)" "r < n_dim w" "c < n_dim w" "c \<le> r + k"
  note m = apply_mask_same_dim [OF assms(1-3)]
  from a m(1,2) have b: "e < length (elems v)" "r < n" "c < n" by simp_all
  then have "elems v ! e ! r ! c = 0"
    using assms(2,4) a(4) by (simp add: zero_below_def)
  with m(4) [OF b] show "elems w ! e ! r ! c = 0" by simp
qed

lemma ones_below:
  assumes "arr_ok w" and "zero_below k w"
    and "e < length (elems w)" and "r < n_dim w" and "c < n_dim w" and "c \<le> r + k"
  shows "elems (cumprod (one_minus w)) ! e ! r ! c = 1"
proof (rule final_entry_one [OF assms(1,3,4,5)])
  show "\<forall>c'\<le>c. elems w ! e ! r ! c' = 0"
    using assms(2-6) by (simp add: zero_below_def)
qed

lemma builders_core:
  assumes "same_topology L0 L1"
    and "compute_Lambdas L0 L1 cs = Inr (R0, R1)
       \<or> compute_Lambdas_dSIR L0 L1 cs coeffs = Inr (R0, R1)"
  obtains w0 w1 where "tensor_values R0 = cumprod (one_minus w0)"
    and "tensor_values R1 = cumprod (one_minus w1)"
    and "arr_ok w0" and "arr_ok w1"
    and "n_dim w0 = n_dim (tensor_values L0)" and "n_dim w1 = n_dim (tensor_values L1)"
    and "length (elems w0) = length (elems (tensor_values L0))"
    and "length (elems w1) = length (elems (tensor_values L1))"
    and "zero_below 0 w0" and "zero_below 1 w1"
proof -
  from assms(1) have dim: "n_dim (tensor_values L0) = n_dim (tensor_values L1)"
    by (simp add: same_topology_def)
  from assms(2) show ?thesis
  proof
    assume "compute_Lambdas L0 L1 cs = Inr (R0, R1)"
    then obtain A0 A1 v0 v1 where
      wr: "write_contacts (L0\<lparr>tensor_values := fill (tensor_values L0) 0\<rparr>)
         (L1\<lparr>tensor_values := fill (tensor_values L1) 0\<rparr>) cs = Inr (A0, A1)"
      and t1: "tril_zero (n_dim (tensor_values A1)) 1 (tensor_values A1) = Inr v1"
      and t0: "tril_zero (n_dim (tensor_values A1)) 0 (tensor_values A0) = Inr v0"
      and r0: "tensor_values R0 = cumprod (one_minus v0)"
      and r1: "tensor_values R1 = cumprod (one_minus v1)"
      by (rule compute_Lambdas_Inr)
    note A = written_arrays(1-6) [OF wr]
    have n0: "n_dim (tensor_values A1) = n_dim (tensor_values A0)" using A dim by simp
    have "zero_below 0 v0" using t0 A(3) n0 by (rule zero_below_tril_zero)
    moreover have "zero_below 1 v1" using t1 A(6) by (rule zero_below_tril_zero) simp
    ultimately show ?thesis
      using that [OF r0 r1] tril_zero_shape [OF t0] tril_zero_shape [OF t1] A by simp
  next
    assume "compute_Lambdas_dSIR L0 L1 cs coeffs = Inr (R0, R1)"
    then obtain A0 A1 v0 v1 w0 w1 where
      wr: "write_contacts (L0\<lparr>tensor_values := fill (tensor_values L0) 0\<rparr>)
         (L1\<lparr>tensor_values := fill (tensor_values L1) 0\<rparr>) cs = Inr (A0, A1)"
      and t1: "tril_zero (n_dim (tensor_values A1)) 1 (tensor_values A1) = Inr v1"
      and t0: "tril_zero (n_dim (tensor_values A1)) 0 (tensor_values A0) = Inr v0"
      and m1: "apply_mask v1 (n_dim (tensor_values L0))
             (infectivity_mask (n_dim (tensor_values L0)) 2 coeffs) = Inr w1"
      and m0: "apply_mask v0 (n_dim (tensor_values L0))
             (infectivity_mask (n_dim (tensor_values L0)) 1 coeffs) = Inr w0"
      and r0: "tensor_values R0 = cumprod (one_minus w0)"
      and r1: "tensor_values R1 = cumprod (one_minus w1)"
      by (rule compute_Lambdas_dSIR_Inr)
    note A = written_arrays(1-6) [OF wr]
    have n0: "n_dim (tensor_values A1) = n_dim (tensor_values A0)" using A dim by simp
    have z0: "zero_below 0 v0" using t0 A(3) n0 by (rule zero_below_tril_zero)
    have z1: "zero_below 1 v1" using t1 A(6) by (rule zero_below_tril_zero) simp
    have d0: "n_dim v0 = n_dim (tensor_values L0)" and ok0: "arr_ok v0"
      and l0: "length (elems v0) = length (elems (tensor_values L0))"
      using tril_zero_shape [OF t0] A by simp_all
    have d1: "n_dim v1 = n_dim (tensor_values L0)" and ok1: "arr_ok v1"
      and l1: "length (elems v1) = length (elems (tensor_values L1))"
      using tril_zero_shape [OF t1] A dim by simp_all
    note M0 = apply_mask_same_dim(1-3) [OF m0 d0 ok0]
    note M1 = apply_mask_same_dim(1-3) [OF m1 d1 ok1]
    have "zero_below 0 w0" using m0 d0 ok0 z0 by (rule zero_below_apply_mask)
    moreover have "zero_below 1 w1" using m1 d1 ok1 z1 by (rule zero_below_apply_mask)
    ultimately show ?thesis
      using that [OF r0 r1] M0 M1 l0 l1 dim by simp
  qed
qed

lemma builders_ones_below:
  assumes "same_topology L0 L1"
    and "compute_Lambdas L0 L1 cs = Inr (R0, R1)
       \<or> compute_Lambdas_dSIR L0 L1 cs coeffs = Inr (R0, R1)"
  shows "e < n_slots (tensor_values R1) \<Longrightarrow> r < n_dim (tensor_values R1) \<Longrightarrow>
           c < n_dim (tensor_values R1) \<Longrightarrow> c \<le> r + 1 \<Longrightarrow>
           elems (tensor_values R1) ! e ! r ! c = 1"
    and "e < n_slots (tensor_values R0) \<Longrightarrow> r < n_dim (tensor_values R0) \<Longrightarrow>
           c < n_dim (tensor_values R0) \<Longrightarrow> c \<le> r \<Longrightarrow>
           elems (tensor_values R0) ! e ! r ! c = 1"
proof -
  from assms obtain w0 w1 where r0: "tensor_values R0 = cumprod (one_minus w0)"
    and r1: "tensor_values R1 = cumprod (one_minus w1)"
    and ok: "arr_ok w0" "arr_ok w1" and z: "zero_below 0 w0" "zero_below 1 w1"
    by (rule builders_core)
  show "elems (tensor_values R1) ! e ! r ! c = 1"
    if "e < n_slots (tensor_values R1)" "r < n_dim (tensor_values R1)"
      "c < n_dim (tensor_values R1)" "c \<le> r + 1"
    using that ones_below [OF ok(2) z(2), of e r c]
    by (simp add: r1 n_slots_def shape_final)
  show "elems (tensor_values R0) ! e ! r ! c = 1"
    if "e < n_slots (tensor_values R0)" "r < n_dim (tensor_values R0)"
      "c < n_dim (tensor_values R0)" "c \<le> r"
    using that ones_below [OF ok(1) z(1), of e r c]
    by (simp add: r0 n_slots_def shape_final)
qed

text \<open>
  Claim C4. After either builder has run on a same-topology pair, every entry at row
  \<open>r\<close> and column \<open>c\<close> with \<open>r > c - 1\<close> of every matrix of \<open>Lambda1\<close>, and with
  \<open>r > c\<close> of every matrix of \<open>Lambda0\<close>, equals 1. (The zeroing also clears
  the diagonal \<open>r = c - 1\<close>, respectively \<open>r = c\<close>; \<open>builders_ones_below\<close> covers it.)
\<close>

theorem lower_triangle_ones:
  assumes "same_topology L0 L1"
    and "compute_Lambdas L0 L1 cs = Inr (R0, R1)
       \<or> compute_Lambdas_dSIR L0 L1 cs coeffs = Inr (R0, R1)"
  shows "(\<forall>e r c. e < n_slots (tensor_values R1) \<and> r < n_dim (tensor_values R1)
            \<and> c < n_dim (tensor_values R1) \<and> int r > int c - 1
            \<longrightarrow> elems (tensor_values R1) ! e ! r ! c = 1)
       \<and> (\<forall>e r c. e < n_slots (tensor_values R0) \<and> r < n_dim (tensor_values R0)
            \<and> c < n_dim (tensor_values R0) \<and> int r > int c - 0
            \<longrightarrow> elems (tensor_values R0) ! e ! r ! c = 1)"
  using builders_ones_below [OF assms] by simp

lemma same_topology_init_like:
  assumes "init N T cs = Inr L0" and "init_like L0 = Inr L1"
  shows "same_topology L0 L1"
proof -
  from assms(1) obtain es where "edge_list_of cs = Inr es"
    and "populate (replicate (nat N) []) es = Inr (adj_list L0)"
    and "idx_list L0 = build_idx 0 (map length (adj_list L0))"
    and "num_direct_edges L0 = length es"
    and "degree L0 = map length (adj_list L0)"
    and "tensor_values L0 = np_full (length es) (nat (T + 2)) (1 / real_of_int ((T + 2) * (T + 2)))"
    and "nodes_N L0 = N" and "time_T L0 = T"
    by (rule init_Inr)
  with assms(2) show ?thesis
    by (auto simp: init_like_def same_topology_def n_slots_def np_full_def split: if_splits)
qed

theorem lower_triangle_ones_witness:
  "\<exists>L0 L1 R0 R1 S0 S1.
      init 2 1 [(0, 1, 0, 1 / 2), (1, 0, 0, 1 / 4)] = Inr L0 \<and> init_like L0 = Inr L1
    \<and> same_topology L0 L1
    \<and> compute_Lambdas L0 L1 [(0, 1, 0, 1 / 2), (1, 0, 0, 1 / 4)] = Inr (R0, R1)
    \<and> compute_Lambdas_dSIR L0 L1 [(0, 1, 0, 1 / 2), (1, 0, 0, 1 / 4)] [1 / 2] = Inr (S0, S1)
    \<and> elems (tensor_values R1) ! 1 ! 2 ! 2 = 1 \<and> elems (tensor_values R0) ! 1 ! 2 ! 1 = 1
    \<and> elems (tensor_values S1) ! 1 ! 2 ! 2 = 1 \<and> elems (tensor_values S0) ! 1 ! 2 ! 1 = 1"
proof -
  let ?cs = "[(0, 1, 0, 1 / 2), (1, 0, 0, 1 / 4)] :: contact list"
  let ?L0 = "\<lparr>nodes_N = 2, time_T = 1, adj_list = [[1], [0]], idx_list = [[0], [1]],
               num_direct_edges = 2, degree = [1, 1], tensor_values = np_full 2 3 (1 / 9)\<rparr>"
  let ?L1 = "?L0\<lparr>tensor_values := np_full 2 3 1\<rparr>"
  let ?ones = "[1, 1, 1] :: real list"
  let ?R0 = "?L0\<lparr>tensor_values := \<lparr>n_dim = 3,
      elems = [[[1, 3 / 4, 3 / 4], ?ones, ?ones], [[1, 1 / 2, 1 / 2], ?ones, ?ones]]\<rparr>\<rparr>"
  let ?R1 = "?L0\<lparr>tensor_values := \<lparr>n_dim = 3,
      elems = [[[1, 1, 3 / 4], ?ones, ?ones], [[1, 1, 1 / 2], ?ones, ?ones]]\<rparr>\<rparr>"
  let ?S0 = "?L0\<lparr>tensor_values := \<lparr>n_dim = 3,
      elems = [[[1, 7 / 8, 7 / 8], ?ones, ?ones], [[1, 3 / 4, 3 / 4], ?ones, ?ones]]\<rparr>\<rparr>"
  let ?S1 = "?L0\<lparr>tensor_values := \<lparr>n_dim = 3,
      elems = [[[1, 1, 7 / 8], ?ones, ?ones], [[1, 1, 3 / 4], ?ones, ?ones]]\<rparr>\<rparr>"
  have a: "init 2 1 ?cs = Inr ?L0" by code_simp
  have b: "init_like ?L0 = Inr ?L1" by code_simp
  have t: "same_topology ?L0 ?L1" using a b by (rule same_topology_init_like)
  have c: "compute_Lambdas ?L0 ?L1 ?cs = Inr (?R0, ?R1)" by code_simp
  have d: "compute_Lambdas_dSIR ?L0 ?L1 ?cs [1 / 2] = Inr (?S0, ?S1)" by code_simp
  note run = lower_triangle_ones [OF t disjI1 [OF c]]
  have "elems (tensor_values ?R1) ! 1 ! 2 ! 2 = 1"
    by (rule run [THEN conjunct1, rule_format, of 1 2 2]) (simp add: n_slots_def)
  moreover have "elems (tensor_values ?R0) ! 1 ! 2 ! 1 = 1"
    by (rule run [THEN conjunct2, rule_format, of 1 2 1]) (simp add: n_slots_def)
  ultimately have R: "elems (tensor_values ?R1) ! 1 ! 2 ! 2 = 1
      \<and> elems (tensor_values ?R0) ! 1 ! 2 ! 1 = 1" ..
  note masked = lower_triangle_ones [OF t disjI2 [OF d]]
  have "elems (tensor_values ?S1) ! 1 ! 2 ! 2 = 1"
    by (rule masked [THEN conjunct1, rule_format, of 1 2 2]) (simp add: n_slots_def)
  moreover have "elems (tensor_values ?S0) ! 1 ! 2 ! 1 = 1"
    by (rule masked [THEN conjunct2, rule_format, of 1 2 1]) (simp add: n_slots_def)
  ultimately have S: "elems (tensor_values ?S1) ! 1 ! 2 ! 2 = 1
      \<and> elems (tensor_values ?S0) ! 1 ! 2 ! 1 = 1" ..
  show ?thesis
    using a b t c d R S
    by - (rule exI [of _ ?L0], rule exI [of _ ?L1], rule exI [of _ ?R0], rule exI [of _ ?R1], rule exI [of _ ?S0], rule exI [of _ ?S1], simp)
qed

section \<open>Degenerate sizes\<close>

lemma norm_index_iff:
  "norm_index n i = (if - int n \<le> i \<and> i < int n
                     then Inr (nat (if i < 0 then i + int n else i)) else Inl IndexError)"
  by (auto simp: norm_index_def Let_def)

lemma populate_in_range:
  assumes "\<forall>e\<in>set es. - int (length adj) \<le> fst e \<and> fst e < int (length adj)"
  shows "\<exists>adj'. populate adj es = Inr adj'"
  using assms
proof (induction es arbitrary: adj)
  case Nil
  then show ?case by simp
next
  case (Cons e es)
  then obtain k where k: "norm_index (length adj) (fst e) = Inr k"
    by (auto simp: norm_index_iff)
  from Cons.prems Cons.IH [of "adj[k := adj ! k @ [snd e]]"] k show ?case by simp
qed

lemma populate_out_of_range:
  assumes "\<not> (\<forall>e\<in>set es. - int (length adj) \<le> fst e \<and> fst e < int (length adj))"
  shows "populate adj es = Inl IndexError"
  using assms
proof (induction es arbitrary: adj)
  case Nil
  then show ?case by simp
next
  case (Cons e es)
  show ?case
  proof (cases "- int (length adj) \<le> fst e \<and> fst e < int (length adj)")
    case False
    then have "norm_index (length adj) (fst e) = Inl IndexError"
      by (simp add: norm_index_iff)
    then show ?thesis by simp
  next
    case True
    then obtain k where k: "norm_index (length adj) (fst e) = Inr k"
      by (simp add: norm_index_iff)
    from True Cons.prems
    have "\<not> (\<forall>x\<in>set es. - int (length (adj[k := adj ! k @ [snd e]])) \<le> fst x
              \<and> fst x < int (length (adj[k := adj ! k @ [snd e]])))"
      by simp
    then have "populate (adj[k := adj ! k @ [snd e]]) es = Inl IndexError"
      by (rule Cons.IH)
    with k show ?thesis by simp
  qed
qed

lemma edge_list_of_cases:
  "edge_list_of cs =
     (if cs = [] \<or> contacts_fit cs
      then Inr (np_unique (np_unique (map edge_of cs) @ np_flip (np_unique (map edge_of cs))))
      else Inl OverflowError)"
  by (auto simp: edge_list_of_def Let_def np_unique_def np_flip_def)

lemma edges_in_range_iff:
  assumes "edge_list_of cs = Inr es"
  shows "(\<forall>e\<in>set es. - int (nat N) \<le> fst e \<and> fst e < int (nat N)) \<longleftrightarrow> nodes_in_range N cs"
proof
  assume a: "\<forall>e\<in>set es. - int (nat N) \<le> fst e \<and> fst e < int (nat N)"
  have "- int (nat N) \<le> i \<and> i < int (nat N) \<and> - int (nat N) \<le> j \<and> j < int (nat N)"
    if "(i, j, t, lam) \<in> set cs" for i j t lam
  proof -
    have "(i, j) \<in> set es" "(j, i) \<in> set es"
      using that edge_list_of_mem [OF assms, of "(i, j)"] edge_list_of_mem [OF assms, of "(j, i)"]
      by (force simp: edge_of_def)+
    with a show ?thesis by fastforce
  qed
  then show "nodes_in_range N cs" by (auto simp: nodes_in_range_def list_all_iff)
next
  assume r: "nodes_in_range N cs"
  show "\<forall>e\<in>set es. - int (nat N) \<le> fst e \<and> fst e < int (nat N)"
  proof
    fix e assume "e \<in> set es"
    then obtain c where c: "c \<in> set cs"
      and e: "e = edge_of c \<or> e = (snd (edge_of c), fst (edge_of c))"
      using edge_list_of_mem [OF assms] by blast
    obtain i j t lam where "c = (i, j, t, lam)" by (cases c)
    with c r e show "- int (nat N) \<le> fst e \<and> fst e < int (nat N)"
      by (auto simp: nodes_in_range_def list_all_iff edge_of_def)
  qed
qed

lemma init_negative_T:
  assumes "T \<le> - 2"
  shows "init N T cs =
     Inl (if cs = [] \<or> contacts_fit cs
          then (if nodes_in_range N cs
                then (if T = - 2 then ZeroDivisionError else ValueError)
                else IndexError)
          else OverflowError)"
proof (cases "cs = [] \<or> contacts_fit cs")
  case False
  then show ?thesis by (simp add: init_def edge_list_of_cases)
next
  case True
  then obtain es where es: "edge_list_of cs = Inr es" by (simp add: edge_list_of_cases)
  note rng = edges_in_range_iff [OF es, of N]
  show ?thesis
  proof (cases "nodes_in_range N cs")
    case False
    with rng have "populate (replicate (nat N) []) es = Inl IndexError"
      by (intro populate_out_of_range) simp
    with True False es show ?thesis by (simp add: init_def)
  next
    case r: True
    with rng obtain adj where "populate (replicate (nat N) []) es = Inr adj"
      using populate_in_range [of es "replicate (nat N) []"] by auto
    with True r es assms show ?thesis
      by (auto simp: init_def Let_def shape_ok_def)
  qed
qed

lemma init_no_nodes:
  assumes "N \<le> 0" and "cs \<noteq> []"
  shows "init N T cs = Inl (if contacts_fit cs then IndexError else OverflowError)"
proof (cases "contacts_fit cs")
  case False
  with assms(2) show ?thesis by (simp add: init_def edge_list_of_cases)
next
  case True
  then obtain es where es: "edge_list_of cs = Inr es" and ne: "es \<noteq> []"
    using assms(2) by (simp add: edge_list_of_cases np_unique_Nil_iff)
  from assms(1) have "nat N = 0" by simp
  with es ne True show ?thesis by (simp add: init_def populate_no_nodes)
qed

text \<open>
  Claim C9, as the code has it. Construction has no validation step. With \<open>N \<le> 0\<close> and
  an empty contact list, \<open>N = 0\<close> and \<open>T = 0\<close> being the defaults of the constructor, it
  returns a tensor without nodes and edges for every \<open>T \<ge> -1\<close> whose shape \<open>np.full\<close>
  accepts (\<open>T = -1\<close> gives \<open>1 \<times> 1\<close> matrices). Degenerate sizes fail only where a later
  step raises. With \<open>N \<le> 0\<close> and a non-empty contact list: \<open>OverflowError\<close> when an
  entry of a contact does not fit 64 bits, else \<open>IndexError\<close> when the first edge is
  entered. With \<open>T \<le> -2\<close>: \<open>OverflowError\<close> in the same case, else \<open>IndexError\<close> when
  a node index is outside \<open>-N .. N-1\<close>, else \<open>ZeroDivisionError\<close> for \<open>T = -2\<close> and
  \<open>ValueError\<close> for \<open>T < -2\<close>.
\<close>

theorem init_without_validation:
  "(N \<le> 0 \<longrightarrow>
      init N T [] =
        (if T = - 2 then Inl ZeroDivisionError
         else if shape_ok 0 (T + 2)
         then Inr \<lparr>nodes_N = N, time_T = T, adj_list = [], idx_list = [],
                   num_direct_edges = 0, degree = [],
                   tensor_values = \<lparr>n_dim = nat (T + 2), elems = []\<rparr>\<rparr>
         else Inl ValueError))
   \<and> (N \<le> 0 \<and> cs \<noteq> [] \<longrightarrow>
        init N T cs = Inl (if contacts_fit cs then IndexError else OverflowError))
   \<and> (T \<le> - 2 \<longrightarrow>
        init N T cs =
          Inl (if cs = [] \<or> contacts_fit cs
               then (if nodes_in_range N cs
                     then (if T = - 2 then ZeroDivisionError else ValueError)
                     else IndexError)
               else OverflowError))"
proof (intro conjI impI)
  assume "N \<le> 0"
  then have "nat N = 0" by simp
  then show "init N T [] =
        (if T = - 2 then Inl ZeroDivisionError
         else if shape_ok 0 (T + 2)
         then Inr \<lparr>nodes_N = N, time_T = T, adj_list = [], idx_list = [],
                   num_direct_edges = 0, degree = [],
                   tensor_values = \<lparr>n_dim = nat (T + 2), elems = []\<rparr>\<rparr>
         else Inl ValueError)"
    by (simp add: init_no_contacts np_full_def)
next
  assume "N \<le> 0 \<and> cs \<noteq> []"
  then show "init N T cs = Inl (if contacts_fit cs then IndexError else OverflowError)"
    using init_no_nodes [of N cs T] by simp
next
  assume "T \<le> - 2"
  then show "init N T cs =
          Inl (if cs = [] \<or> contacts_fit cs
               then (if nodes_in_range N cs
                     then (if T = - 2 then ZeroDivisionError else ValueError)
                     else IndexError)
               else OverflowError)"
    by (rule init_negative_T)
qed

theorem init_without_validation_witness:
  "init 0 0 [] = Inr \<lparr>nodes_N = 0, time_T = 0, adj_list = [], idx_list = [],
       num_direct_edges = 0, degree = [], tensor_values = \<lparr>n_dim = 2, elems = []\<rparr>\<rparr>
   \<and> init 0 0 [(0, 1, 0, 1 / 2)] = Inl IndexError
   \<and> init 0 0 [(0, 1, 2 ^ 63, 1 / 2)] = Inl OverflowError
   \<and> init 2 (- 2) [(0, 1, 0, 1 / 2)] = Inl ZeroDivisionError
   \<and> init 2 (- 3) [(0, 2, 0, 1 / 2)] = Inl IndexError"
proof -
  have s: "shape_ok 0 (0 + 2)" by code_simp
  have f: "contacts_fit [(0, 1, 0, 1 / 2)]" "contacts_fit [(0, 2, 0, 1 / 2)]" by code_simp+
  have g: "\<not> contacts_fit [(0, 1, 2 ^ 63, 1 / 2)]" by code_simp
  have r: "nodes_in_range 2 [(0, 1, 0, 1 / 2)]" by code_simp
  have q: "\<not> nodes_in_range 2 [(0, 2, 0, 1 / 2)]" by code_simp
  from init_without_validation [of 0 0 "[(0, 1, 0, 1 / 2)]"] s f
  have 1: "init 0 0 [] = Inr \<lparr>nodes_N = 0, time_T = 0, adj_list = [], idx_list = [],
       num_direct_edges = 0, degree = [], tensor_values = \<lparr>n_dim = 2, elems = []\<rparr>\<rparr>"
    and 2: "init 0 0 [(0, 1, 0, 1 / 2)] = Inl IndexError" by simp_all
  from init_without_validation [of 0 0 "[(0, 1, 2 ^ 63, 1 / 2)]"] g
  have 3: "init 0 0 [(0, 1, 2 ^ 63, 1 / 2)] = Inl OverflowError" by simp
  from init_without_validation [of 2 "- 2" "[(0, 1, 0, 1 / 2)]"] f r
  have 4: "init 2 (- 2) [(0, 1, 0, 1 / 2)] = Inl ZeroDivisionError" by simp
  from init_without_validation [of 2 "- 3" "[(0, 2, 0, 1 / 2)]"] f q
  have 5: "init 2 (- 3) [(0, 2, 0, 1 / 2)] = Inl IndexError" by simp
  from 1 2 3 4 5 show ?thesis by simp
qed

theorem init_without_validation_counterexample:
  "init 0 0 [] = Inr \<lparr>nodes_N = 0, time_T = 0, adj_list = [], idx_list = [],
       num_direct_edges = 0, degree = [], tensor_values = np_full 0 2 (1 / 4)\<rparr>
   \<and> init 2 (- 1) [] = Inr \<lparr>nodes_N = 2, time_T = - 1, adj_list = [[], []], idx_list = [[], []],
       num_direct_edges = 0, degree = [0, 0], tensor_values = np_full 0 1 1\<rparr>"
  by code_simp

end
